theory Spec2Isabelle
  imports Main "HOL-Library.Word" "HOL-Library.Signed_Division"
begin

unbundle bit_operations_syntax

section \<open>Machine types of the sketch\<close>

text \<open>
  The sketch runs on an ESP32: \<^verbatim>\<open>int\<close> is a 32-bit two's complement value and
  \<^verbatim>\<open>unsigned long\<close> (the type of \<^verbatim>\<open>millis()\<close>) is a 32-bit unsigned value.
  Both are \<open>32 word\<close>; \<open>sint\<close> reads an \<^verbatim>\<open>int\<close>, \<open>unat\<close> an \<^verbatim>\<open>unsigned long\<close>.
  Addition and subtraction wrap around.
\<close>

type_synonym c_int = "32 word"
type_synonym c_ulong = "32 word"

text \<open>
  What can go wrong in the C++ code and is made a value here: reading an array outside
  its bounds, the remainder operator with an undefined result, the two busy loops of
  \<^verbatim>\<open>setup()\<close> that never end (\<^verbatim>\<open>for(;;)\<close> after a failed OLED allocation, the wait for
  WiFi), and the confirmation loop still waiting when the recorded clock readings end.
\<close>

datatype fault =
    ArrayOutOfBounds
  | RemainderUndefined
  | OledAllocationFailed
  | WifiNotConnected
  | DwellUnfinished

text \<open>
  The operator \<^verbatim>\<open>%\<close> of C++ on \<^verbatim>\<open>int\<close>: the quotient is truncated towards zero, so the
  remainder has the sign of the left operand. A zero divisor, and \<^verbatim>\<open>INT_MIN % -1\<close>,
  are undefined.
\<close>

definition c_rem :: "c_int \<Rightarrow> c_int \<Rightarrow> fault + c_int" where
  "c_rem a b =
     (if b = 0 \<or> (a = - (2 ^ 31) \<and> b = - 1) then Inl RemainderUndefined
      else Inr (word_of_int (sint a smod sint b)))"

text \<open>Reading \<^verbatim>\<open>xs[i]\<close> with an \<^verbatim>\<open>int\<close> index.\<close>

definition array_at :: "'a list \<Rightarrow> c_int \<Rightarrow> fault + 'a" where
  "array_at xs i =
     (if 0 \<le> sint i \<and> nat (sint i) < length xs then Inr (xs ! nat (sint i))
      else Inl ArrayOutOfBounds)"

section \<open>Data\<close>

datatype DeviceState =
    STATE_NAME_SELECTION
  | STATE_CLASS_SELECTION
  | STATE_MOOD_SELECTION
  | STATE_SUBMISSION
  | STATE_CONFIRMATION

text \<open>The four constant arrays of the sketch (``Menu Data'').\<close>

record config =
  names :: "string list"
  classes :: "string list"
  moods :: "string list"
  moodMessages :: "string list"

definition menu_data :: config where
  "menu_data =
     \<lparr> names = [''Tan Jetyu'', ''Nur Qalisha'', ''Shum Jia Xiang'', ''Evelyn''],
       classes = [''Class 3'', ''Class 4'', ''Class 5''],
       moods = [''Happy'', ''Neutral'', ''Sad'', ''Angry'', ''Excited''],
       moodMessages =
         [''yes! Please stay happy !'',
          ''awh Why ? Try to find something you like to do today !'',
          ''Well, Its okay to be sad. Try to reach out to people you trust.'',
          ''Okay! Cool cool! Take a deep breath!'',
          ''Wow! I'm glad! Try to share your happiness with your friends!''] \<rparr>"

text \<open>\<^verbatim>\<open>sizeof(xs) / sizeof(xs[0])\<close>, stored in a \<^verbatim>\<open>const int\<close>.\<close>

definition numNames :: "config \<Rightarrow> c_int" where
  "numNames cfg = of_nat (length (names cfg))"

definition numClasses :: "config \<Rightarrow> c_int" where
  "numClasses cfg = of_nat (length (classes cfg))"

definition numMoods :: "config \<Rightarrow> c_int" where
  "numMoods cfg = of_nat (length (moods cfg))"

text \<open>
  An array of C++ has at least one element, and the arrays of the sketch, which live in
  the memory of an ESP32, have far fewer than \<open>2 ^ 29\<close>.
\<close>

definition wf_list :: "'a list \<Rightarrow> bool" where
  "wf_list xs \<longleftrightarrow> 0 < length xs \<and> length xs < 2 ^ 29"

definition wf_config :: "config \<Rightarrow> bool" where
  "wf_config cfg \<longleftrightarrow> wf_list (names cfg) \<and> wf_list (classes cfg) \<and> wf_list (moods cfg)"

text \<open>
  What the sketch does to the outside, in order: the LCD cleared and the rows printed on
  it, the calls that draw on the OLED, the message handed to \<^verbatim>\<open>sendTelegramMessage\<close>,
  and \<^verbatim>\<open>delay(ms)\<close>. The lines printed on the serial port and the updates of the NTP
  client are left out: nothing in the sketch reads them back.
\<close>

datatype effect =
    Lcd "string list"
  | OledEyes
  | OledEmotion c_int
  | OledSmallMessage string
  | OledText "string list"
  | Telegram string
  | Delay nat

text \<open>
  The global variables. \<open>prevState\<close> starts as \<^verbatim>\<open>(DeviceState)-1\<close>, a value that is no
  enumerator: \<open>None\<close>.
\<close>

record device =
  currentState :: DeviceState
  selectedNameIndex :: c_int
  selectedClassIndex :: c_int
  selectedMoodIndex :: c_int
  encoderPos :: c_int
  lastEncoded :: c_int
  lastButtonPressTime :: c_ulong
  prevState :: "DeviceState option"
  prevNameIndex :: c_int
  prevClassIndex :: c_int
  prevMoodIndex :: c_int
  trace :: "effect list"

definition emit :: "effect \<Rightarrow> device \<Rightarrow> device" where
  "emit x s = s\<lparr>trace := trace s @ [x]\<rparr>"

section \<open>The interrupt routine\<close>

text \<open>A sample is the pair of levels (pin A, pin B) that the routine reads; \<open>True\<close> is HIGH.\<close>

type_synonym sample = "bool \<times> bool"

definition digitalRead :: "bool \<Rightarrow> c_int" where
  "digitalRead level = (if level then 1 else 0)"

definition encode :: "sample \<Rightarrow> c_int" where
  "encode ab = push_bit 1 (digitalRead (fst ab)) OR digitalRead (snd ab)"

definition transition_code :: "c_int \<Rightarrow> sample \<Rightarrow> c_int" where
  "transition_code prev ab = push_bit 2 prev OR encode ab"

definition updateEncoder :: "sample \<Rightarrow> device \<Rightarrow> device" where
  "updateEncoder ab s =
     (let encoded = encode ab;
          sum4 = push_bit 2 (lastEncoded s) OR encoded;
          s1 = (if sum4 = 13 \<or> sum4 = 4 \<or> sum4 = 2 \<or> sum4 = 11
                then s\<lparr>encoderPos := encoderPos s + 1\<rparr>
                else if sum4 = 14 \<or> sum4 = 7 \<or> sum4 = 1 \<or> sum4 = 8
                then s\<lparr>encoderPos := encoderPos s - 1\<rparr>
                else s)
      in s1\<lparr>lastEncoded := encoded\<rparr>)"

text \<open>The routine run once for each sample of a list, in order.\<close>

fun interrupts :: "sample list \<Rightarrow> device \<Rightarrow> device" where
  "interrupts [] s = s"
| "interrupts (ab # rest) s = interrupts rest (updateEncoder ab s)"

section \<open>The button\<close>

text \<open>
  \<open>low\<close> is \<^verbatim>\<open>digitalRead(BUTTON_PIN) == LOW\<close> and \<open>currentMillis\<close> the value of
  \<^verbatim>\<open>millis()\<close>; the subtraction is unsigned and wraps.
\<close>

definition isButtonPressed :: "bool \<Rightarrow> c_ulong \<Rightarrow> device \<Rightarrow> bool \<times> device" where
  "isButtonPressed low currentMillis s =
     (if low then
        (if 200 < currentMillis - lastButtonPressTime s
         then (True, s\<lparr>lastButtonPressTime := currentMillis\<rparr>)
         else (False, s))
      else (False, s))"

section \<open>The displays\<close>

text \<open>
  One \<open>Lcd rows\<close> stands for the LCD cleared and the rows printed on it.
  \<^verbatim>\<open>displayMenu()\<close> clears the LCD first in every phase; in the confirmation it clears it
  a second time before it prints, which leaves the same on the LCD.
\<close>

definition displayMenu :: "config \<Rightarrow> device \<Rightarrow> fault + device" where
  "displayMenu cfg s =
     (case currentState s of
        STATE_NAME_SELECTION \<Rightarrow>
          (case array_at (names cfg) (selectedNameIndex s) of
             Inl e \<Rightarrow> Inl e
           | Inr label \<Rightarrow> Inr (emit (Lcd [''Select Name:'', label]) s))
      | STATE_CLASS_SELECTION \<Rightarrow>
          (case array_at (classes cfg) (selectedClassIndex s) of
             Inl e \<Rightarrow> Inl e
           | Inr label \<Rightarrow> Inr (emit (Lcd [''Select Class:'', label]) s))
      | STATE_MOOD_SELECTION \<Rightarrow>
          (case array_at (moods cfg) (selectedMoodIndex s) of
             Inl e \<Rightarrow> Inl e
           | Inr label \<Rightarrow> Inr (emit (Lcd [''Select Mood:'', label]) s))
      | STATE_CONFIRMATION \<Rightarrow> Inr (emit (Lcd [''Submitted!'', ''Thank you!'']) s)
      | STATE_SUBMISSION \<Rightarrow> Inr (emit (Lcd []) s))"

definition updateOLED :: "config \<Rightarrow> device \<Rightarrow> fault + device" where
  "updateOLED cfg s =
     (case currentState s of
        STATE_NAME_SELECTION \<Rightarrow> Inr (emit OledEyes s)
      | STATE_CLASS_SELECTION \<Rightarrow> Inr (emit OledEyes s)
      | STATE_MOOD_SELECTION \<Rightarrow> Inr (emit (OledEmotion (selectedMoodIndex s)) s)
      | STATE_CONFIRMATION \<Rightarrow>
          (case array_at (moodMessages cfg) (selectedMoodIndex s) of
             Inl e \<Rightarrow> Inl e
           | Inr msg \<Rightarrow> Inr (emit (OledSmallMessage msg) s))
      | STATE_SUBMISSION \<Rightarrow> Inr (emit (OledText [''Idle'']) s))"

section \<open>The main loop\<close>

text \<open>
  What one iteration of \<^verbatim>\<open>loop()\<close> receives from outside. The interrupt routine may
  run wherever interrupts are enabled: before the counter is drained
  (\<open>isr_before_drain\<close>), after it (\<open>isr_after_drain\<close>), and during the confirmation loop,
  where each reading of \<^verbatim>\<open>millis()\<close> in the loop condition comes with the samples
  taken since the reading before it (\<open>dwell_reads\<close>). The button pin and \<^verbatim>\<open>millis()\<close>
  are read once, in \<^verbatim>\<open>isButtonPressed()\<close>. \<open>dateStr\<close> is what \<^verbatim>\<open>getFormattedDate()\<close>
  returns and \<open>confirmStart\<close> the reading of \<^verbatim>\<open>millis()\<close> in front of the confirmation
  loop; both are used only by an iteration that submits.

  The samples of \<open>isr_after_drain\<close> may come at any point between the drain and the
  confirmation loop. The interrupt routine writes \<^verbatim>\<open>encoderPos\<close> and \<^verbatim>\<open>lastEncoded\<close> only,
  and the iteration reads and writes neither of them after the drain, so the order does
  not matter and the model delivers these samples right after the drain. \<^verbatim>\<open>yield()\<close>
  changes no variable of the sketch and is left out.
\<close>

record tick =
  isr_before_drain :: "sample list"
  isr_after_drain :: "sample list"
  button_low :: bool
  button_millis :: c_ulong
  dateStr :: string
  confirmStart :: c_ulong
  dwell_reads :: "(sample list \<times> c_ulong) list"

text \<open>Lines 485 to 504: drain the counter with interrupts masked, then apply it.\<close>

definition rotate :: "config \<Rightarrow> c_int \<Rightarrow> device \<Rightarrow> fault + device" where
  "rotate cfg pos s =
     (if pos \<noteq> 0 then
        (case currentState s of
           STATE_NAME_SELECTION \<Rightarrow>
             (case c_rem (selectedNameIndex s + pos + numNames cfg) (numNames cfg) of
                Inl e \<Rightarrow> Inl e
              | Inr i \<Rightarrow> Inr (s\<lparr>selectedNameIndex := i\<rparr>))
         | STATE_CLASS_SELECTION \<Rightarrow>
             (case c_rem (selectedClassIndex s + pos + numClasses cfg) (numClasses cfg) of
                Inl e \<Rightarrow> Inl e
              | Inr i \<Rightarrow> Inr (s\<lparr>selectedClassIndex := i\<rparr>))
         | STATE_MOOD_SELECTION \<Rightarrow>
             (case c_rem (selectedMoodIndex s + pos + numMoods cfg) (numMoods cfg) of
                Inl e \<Rightarrow> Inl e
              | Inr i \<Rightarrow> Inr (s\<lparr>selectedMoodIndex := i\<rparr>))
         | STATE_SUBMISSION \<Rightarrow> Inr s
         | STATE_CONFIRMATION \<Rightarrow> Inr s)
      else Inr s)"

definition read_encoder :: "config \<Rightarrow> tick \<Rightarrow> device \<Rightarrow> fault + device" where
  "read_encoder cfg e s =
     (let s1 = interrupts (isr_before_drain e) s;
          pos = encoderPos s1;
          s2 = s1\<lparr>encoderPos := 0\<rparr>;
          s3 = interrupts (isr_after_drain e) s2
      in rotate cfg pos s3)"

text \<open>Lines 506 to 521.\<close>

definition advance :: "DeviceState \<Rightarrow> DeviceState" where
  "advance st =
     (case st of
        STATE_NAME_SELECTION \<Rightarrow> STATE_CLASS_SELECTION
      | STATE_CLASS_SELECTION \<Rightarrow> STATE_MOOD_SELECTION
      | STATE_MOOD_SELECTION \<Rightarrow> STATE_SUBMISSION
      | STATE_SUBMISSION \<Rightarrow> STATE_SUBMISSION
      | STATE_CONFIRMATION \<Rightarrow> STATE_CONFIRMATION)"

definition read_button :: "tick \<Rightarrow> device \<Rightarrow> device" where
  "read_button e s =
     (case isButtonPressed (button_low e) (button_millis e) s of
        (True, s1) \<Rightarrow> emit (Delay 200) (s1\<lparr>currentState := advance (currentState s1)\<rparr>)
      | (False, s1) \<Rightarrow> s1)"

text \<open>Lines 523 to 532: the LCD is drawn again only when what it shows has changed.\<close>

definition menu_changed :: "device \<Rightarrow> bool" where
  "menu_changed s \<longleftrightarrow>
     Some (currentState s) \<noteq> prevState s \<or>
     (currentState s = STATE_NAME_SELECTION \<and> selectedNameIndex s \<noteq> prevNameIndex s) \<or>
     (currentState s = STATE_CLASS_SELECTION \<and> selectedClassIndex s \<noteq> prevClassIndex s) \<or>
     (currentState s = STATE_MOOD_SELECTION \<and> selectedMoodIndex s \<noteq> prevMoodIndex s)"

definition remember :: "device \<Rightarrow> device" where
  "remember s =
     s\<lparr>prevState := Some (currentState s),
       prevNameIndex := selectedNameIndex s,
       prevClassIndex := selectedClassIndex s,
       prevMoodIndex := selectedMoodIndex s\<rparr>"

definition refresh_menu :: "config \<Rightarrow> device \<Rightarrow> fault + device" where
  "refresh_menu cfg s =
     (if menu_changed s then
        (case displayMenu cfg s of Inl e \<Rightarrow> Inl e | Inr s1 \<Rightarrow> Inr (remember s1))
      else Inr s)"

text \<open>Lines 537 to 545: build the message, send it, show the confirmation on the LCD.\<close>

definition build_message :: "config \<Rightarrow> string \<Rightarrow> device \<Rightarrow> fault + string" where
  "build_message cfg date s =
     (case array_at (names cfg) (selectedNameIndex s) of
        Inl e \<Rightarrow> Inl e
      | Inr n \<Rightarrow>
     (case array_at (classes cfg) (selectedClassIndex s) of
        Inl e \<Rightarrow> Inl e
      | Inr c \<Rightarrow>
     (case array_at (moods cfg) (selectedMoodIndex s) of
        Inl e \<Rightarrow> Inl e
      | Inr m \<Rightarrow>
          Inr (''Name: '' @ n @ [CHR 0x0A] @ ''Class: '' @ c @ [CHR 0x0A] @
               ''Mood: '' @ m @ [CHR 0x0A] @ ''Date: '' @ date))))"

definition send_submission :: "config \<Rightarrow> tick \<Rightarrow> device \<Rightarrow> fault + device" where
  "send_submission cfg e s =
     (case build_message cfg (dateStr e) s of
        Inl err \<Rightarrow> Inl err
      | Inr message \<Rightarrow>
          displayMenu cfg ((emit (Telegram message) s)\<lparr>currentState := STATE_CONFIRMATION\<rparr>))"

text \<open>
  Lines 548 to 552: \<^verbatim>\<open>while (millis() - confirmStart < 3000) { updateOLED(); yield(); }\<close>.
  Each element of the list is one evaluation of the condition; the loop has not ended
  when the list is used up.
\<close>

fun confirmation_dwell ::
  "config \<Rightarrow> c_ulong \<Rightarrow> (sample list \<times> c_ulong) list \<Rightarrow> device \<Rightarrow> fault + device" where
  "confirmation_dwell cfg start [] s = Inl DwellUnfinished"
| "confirmation_dwell cfg start ((irqs, now) # rest) s =
     (if now - start < 3000 then
        (case updateOLED cfg (interrupts irqs s) of
           Inl e \<Rightarrow> Inl e
         | Inr s1 \<Rightarrow> confirmation_dwell cfg start rest s1)
      else Inr (interrupts irqs s))"

text \<open>Lines 555 to 559.\<close>

definition reset_selection :: "device \<Rightarrow> device" where
  "reset_selection s =
     s\<lparr>selectedNameIndex := 0, selectedClassIndex := 0, selectedMoodIndex := 0,
       currentState := STATE_NAME_SELECTION, prevState := None\<rparr>"

text \<open>Lines 536 to 560.\<close>

definition submission :: "config \<Rightarrow> tick \<Rightarrow> device \<Rightarrow> fault + device" where
  "submission cfg e s =
     (if currentState s = STATE_SUBMISSION then
        (case send_submission cfg e s of
           Inl err \<Rightarrow> Inl err
         | Inr s1 \<Rightarrow>
             (case confirmation_dwell cfg (confirmStart e) (dwell_reads e) s1 of
                Inl err \<Rightarrow> Inl err
              | Inr s2 \<Rightarrow> Inr (reset_selection s2)))
      else Inr s)"

text \<open>Lines 483 to 534: everything in front of the submission block.\<close>

definition loop_front :: "config \<Rightarrow> tick \<Rightarrow> device \<Rightarrow> fault + device" where
  "loop_front cfg e s =
     (case read_encoder cfg e s of
        Inl err \<Rightarrow> Inl err
      | Inr s1 \<Rightarrow>
          (case refresh_menu cfg (read_button e s1) of
             Inl err \<Rightarrow> Inl err
           | Inr s2 \<Rightarrow> updateOLED cfg s2))"

definition loop :: "config \<Rightarrow> tick \<Rightarrow> device \<Rightarrow> fault + device" where
  "loop cfg e s =
     (case loop_front cfg e s of
        Inl err \<Rightarrow> Inl err
      | Inr s1 \<Rightarrow> submission cfg e s1)"

text \<open>\<^verbatim>\<open>loop()\<close> called again and again, once for each element of the list.\<close>

fun run :: "config \<Rightarrow> tick list \<Rightarrow> device \<Rightarrow> fault + device" where
  "run cfg [] s = Inr s"
| "run cfg (e # es) s =
     (case loop cfg e s of Inl err \<Rightarrow> Inl err | Inr s1 \<Rightarrow> run cfg es s1)"

section \<open>Setup\<close>

text \<open>The initial values of the global variables.\<close>

definition globals :: device where
  "globals =
     \<lparr> currentState = STATE_NAME_SELECTION,
       selectedNameIndex = 0, selectedClassIndex = 0, selectedMoodIndex = 0,
       encoderPos = 0, lastEncoded = 0, lastButtonPressTime = 0,
       prevState = None, prevNameIndex = - 1, prevClassIndex = - 1, prevMoodIndex = - 1,
       trace = [] \<rparr>"

text \<open>
  What \<^verbatim>\<open>setup()\<close> receives from outside: the result of \<^verbatim>\<open>display.begin\<close>, the
  successive answers to \<^verbatim>\<open>WiFi.status() == WL_CONNECTED\<close>, the address printed on the
  OLED, and the samples seen by the interrupt routine once it is attached.
\<close>

record boot =
  oled_begin :: bool
  wifi_connected :: "bool list"
  local_ip :: string
  isr_during_setup :: "sample list"

definition startupAnimation :: "device \<Rightarrow> device" where
  "startupAnimation s =
     foldl (\<lambda>s x. emit x s) s
       [Lcd [''Welcome!''], Delay 1000,
        Lcd [''Loading.''], Delay 300,
        Lcd [''Loading..''], Delay 300,
        Lcd [''Loading...''], Delay 300,
        Lcd [''Student Emotion'', ''Recorder''], Delay 1500,
        Lcd [''By JET''], Delay 1500,
        Lcd []]"

text \<open>\<^verbatim>\<open>while (WiFi.status() != WL_CONNECTED) { delay(500); }\<close>\<close>

fun wait_for_wifi :: "bool list \<Rightarrow> device \<Rightarrow> fault + device" where
  "wait_for_wifi [] s = Inl WifiNotConnected"
| "wait_for_wifi (connected # rest) s =
     (if connected then Inr s else wait_for_wifi rest (emit (Delay 500) s))"

definition setupWiFi :: "boot \<Rightarrow> device \<Rightarrow> fault + device" where
  "setupWiFi b s =
     (case wait_for_wifi (wifi_connected b) (emit (OledText [''Connecting to WiFi...'']) s) of
        Inl err \<Rightarrow> Inl err
      | Inr s1 \<Rightarrow>
          Inr (emit (Delay 2000)
                 (emit (OledText [''WiFi Connected!'', ''IP:'', local_ip b]) s1)))"

definition setup_sketch :: "config \<Rightarrow> boot \<Rightarrow> fault + device" where
  "setup_sketch cfg b =
     (if \<not> oled_begin b then Inl OledAllocationFailed
      else
        (case setupWiFi b
                (interrupts (isr_during_setup b)
                   (startupAnimation (emit (OledText []) globals))) of
           Inl err \<Rightarrow> Inl err
         | Inr s1 \<Rightarrow>
             (case displayMenu cfg
                     (s1\<lparr>prevState := None, prevNameIndex := - 1,
                         prevClassIndex := - 1, prevMoodIndex := - 1\<rparr>) of
                Inl err \<Rightarrow> Inl err
              | Inr s2 \<Rightarrow> Inr (emit OledEyes s2))))"

section \<open>Vocabulary of the properties\<close>

subsection \<open>The decoder\<close>

text \<open>
  The transition codes met by the routine on a list of samples, starting from the stored
  pair \<open>prev\<close>, and the two groups of four codes that the routine compares with.
\<close>

definition forward_code :: "c_int \<Rightarrow> bool" where
  "forward_code c \<longleftrightarrow> c = 13 \<or> c = 4 \<or> c = 2 \<or> c = 11"

definition backward_code :: "c_int \<Rightarrow> bool" where
  "backward_code c \<longleftrightarrow> c = 14 \<or> c = 7 \<or> c = 1 \<or> c = 8"

fun codes :: "c_int \<Rightarrow> sample list \<Rightarrow> c_int list" where
  "codes prev [] = []"
| "codes prev (ab # rest) = transition_code prev ab # codes (encode ab) rest"

definition forward_steps :: "c_int \<Rightarrow> sample list \<Rightarrow> nat" where
  "forward_steps prev xs = length (filter forward_code (codes prev xs))"

definition backward_steps :: "c_int \<Rightarrow> sample list \<Rightarrow> nat" where
  "backward_steps prev xs = length (filter backward_code (codes prev xs))"

subsection \<open>Indices and phases\<close>

text \<open>An index that \<^verbatim>\<open>xs[i]\<close> may be read at, and the three indices of the selection.\<close>

definition in_range :: "'a list \<Rightarrow> c_int \<Rightarrow> bool" where
  "in_range xs i \<longleftrightarrow> 0 \<le> sint i \<and> sint i < int (length xs)"

definition idx_ok :: "config \<Rightarrow> device \<Rightarrow> bool" where
  "idx_ok cfg s \<longleftrightarrow>
     in_range (names cfg) (selectedNameIndex s) \<and>
     in_range (classes cfg) (selectedClassIndex s) \<and>
     in_range (moods cfg) (selectedMoodIndex s)"

definition selecting :: "DeviceState \<Rightarrow> bool" where
  "selecting st \<longleftrightarrow>
     st = STATE_NAME_SELECTION \<or> st = STATE_CLASS_SELECTION \<or> st = STATE_MOOD_SELECTION"

text \<open>The length of the list that the knob moves through in a phase.\<close>

definition menu_length :: "config \<Rightarrow> DeviceState \<Rightarrow> nat" where
  "menu_length cfg st =
     (case st of
        STATE_NAME_SELECTION \<Rightarrow> length (names cfg)
      | STATE_CLASS_SELECTION \<Rightarrow> length (classes cfg)
      | STATE_MOOD_SELECTION \<Rightarrow> length (moods cfg)
      | STATE_SUBMISSION \<Rightarrow> 0
      | STATE_CONFIRMATION \<Rightarrow> 0)"

subsection \<open>One iteration\<close>

text \<open>The press of an iteration is accepted: what \<^verbatim>\<open>isButtonPressed()\<close> tests.\<close>

definition accepted :: "tick \<Rightarrow> device \<Rightarrow> bool" where
  "accepted e s \<longleftrightarrow> button_low e \<and> 200 < button_millis e - lastButtonPressTime s"

text \<open>
  The value \<^verbatim>\<open>pos\<close> that an iteration drains, the device right after the drain once the
  samples of \<open>isr_after_drain\<close> have come in, and an iteration whose drained value goes
  back by no more than the length of the list in use and forward by less than \<open>2 ^ 30\<close>.
\<close>

definition drained :: "tick \<Rightarrow> device \<Rightarrow> c_int" where
  "drained e s = encoderPos (interrupts (isr_before_drain e) s)"

definition after_drain :: "tick \<Rightarrow> device \<Rightarrow> device" where
  "after_drain e s =
     interrupts (isr_after_drain e) ((interrupts (isr_before_drain e) s)\<lparr>encoderPos := 0\<rparr>)"

definition gentle :: "config \<Rightarrow> tick \<Rightarrow> device \<Rightarrow> bool" where
  "gentle cfg e s \<longleftrightarrow>
     - int (menu_length cfg (currentState s)) \<le> sint (drained e s) \<and>
     sint (drained e s) < 2 ^ 30"

text \<open>
  What an iteration that does not submit does to the phase, to the time of the last
  accepted press and to the two variables of the decoder, read off the inputs alone; the
  same for a list of iterations; the number of presses accepted on the way; and a list of
  iterations each of which is gentle where it starts.
\<close>

definition step_outline :: "tick \<Rightarrow> device \<Rightarrow> device" where
  "step_outline e s =
     (after_drain e s)
       \<lparr>currentState := (if accepted e s then advance (currentState s) else currentState s),
        lastButtonPressTime :=
          (if accepted e s then button_millis e else lastButtonPressTime s)\<rparr>"

fun outline :: "tick list \<Rightarrow> device \<Rightarrow> device" where
  "outline [] s = s"
| "outline (e # es) s = outline es (step_outline e s)"

fun presses :: "tick list \<Rightarrow> device \<Rightarrow> nat" where
  "presses [] s = 0"
| "presses (e # es) s = (if accepted e s then 1 else 0) + presses es (step_outline e s)"

fun gentle_all :: "config \<Rightarrow> tick list \<Rightarrow> device \<Rightarrow> bool" where
  "gentle_all cfg [] s = True"
| "gentle_all cfg (e # es) s = (gentle cfg e s \<and> gentle_all cfg es (step_outline e s))"

text \<open>Two devices that agree on what \<open>step_outline\<close> reads and writes.\<close>

definition same_outline :: "device \<Rightarrow> device \<Rightarrow> bool" where
  "same_outline s t \<longleftrightarrow>
     currentState s = currentState t \<and> lastButtonPressTime s = lastButtonPressTime t \<and>
     encoderPos s = encoderPos t \<and> lastEncoded s = lastEncoded t"

text \<open>The place of a phase in the order of the enumeration.\<close>

fun rank :: "DeviceState \<Rightarrow> nat" where
  "rank STATE_NAME_SELECTION = 0"
| "rank STATE_CLASS_SELECTION = 1"
| "rank STATE_MOOD_SELECTION = 2"
| "rank STATE_SUBMISSION = 3"
| "rank STATE_CONFIRMATION = 4"

subsection \<open>Calls that draw on the OLED\<close>

fun is_oled :: "effect \<Rightarrow> bool" where
  "is_oled OledEyes = True"
| "is_oled (OledEmotion i) = True"
| "is_oled (OledSmallMessage m) = True"
| "is_oled (OledText ls) = True"
| "is_oled (Lcd ls) = False"
| "is_oled (Telegram m) = False"
| "is_oled (Delay n) = False"

definition oled_calls :: "device \<Rightarrow> nat" where
  "oled_calls s = length (filter is_oled (trace s))"

text \<open>How many times the condition of the confirmation loop holds before it fails.\<close>

definition dwell_rounds :: "c_ulong \<Rightarrow> (sample list \<times> c_ulong) list \<Rightarrow> nat" where
  "dwell_rounds start reads = length (takeWhile (\<lambda>r. snd r - start < 3000) reads)"

subsection \<open>Samples after the drain\<close>

text \<open>
  The samples that the interrupt routine takes during the confirmation loop, up to the
  reading of the clock that ends it; an iteration with every sample after the drain
  removed; and a device, or the result of an iteration, with the two variables of the
  decoder blanked.
\<close>

fun dwell_samples :: "c_ulong \<Rightarrow> (sample list \<times> c_ulong) list \<Rightarrow> sample list" where
  "dwell_samples start [] = []"
| "dwell_samples start ((irqs, now) # rest) =
     (if now - start < 3000 then irqs @ dwell_samples start rest else irqs)"

definition without_late_samples :: "tick \<Rightarrow> tick" where
  "without_late_samples e =
     e\<lparr>isr_after_drain := [], dwell_reads := map (\<lambda>r. ([], snd r)) (dwell_reads e)\<rparr>"

definition forget_encoder :: "device \<Rightarrow> device" where
  "forget_encoder s = s\<lparr>encoderPos := 0, lastEncoded := 0\<rparr>"

definition apart_from_encoder :: "fault + device \<Rightarrow> fault + device" where
  "apart_from_encoder r = map_sum id forget_encoder r"

subsection \<open>Concrete inputs\<close>

text \<open>
  A start in which the OLED answers and WiFi connects at the second poll, and the device
  that \<^verbatim>\<open>setup()\<close> then hands to the loop.
\<close>

definition boot_ok :: boot where
  "boot_ok = \<lparr> oled_begin = True, wifi_connected = [False, True],
               local_ip = ''192.168.0.2'', isr_during_setup = [] \<rparr>"

definition after_boot :: device where
  "after_boot =
     globals\<lparr>trace :=
        [OledText [], Lcd [''Welcome!''], Delay 1000, Lcd [''Loading.''],
         Delay 300, Lcd [''Loading..''], Delay 300, Lcd [''Loading...''],
         Delay 300, Lcd [''Student Emotion'', ''Recorder''], Delay 1500,
         Lcd [''By JET''], Delay 1500, Lcd [],
         OledText [''Connecting to WiFi...''], Delay 500,
         OledText [''WiFi Connected!'', ''IP:'', ''192.168.0.2''],
         Delay 2000, Lcd [''Select Name:'', ''Tan Jetyu''], OledEyes]\<rparr>"

text \<open>
  Iterations: nothing happens; the button is down at a given time; the button is up
  again at 1500 ms; the knob goes back by
  one detent (four backward transitions) and the button is up; the button is down at
  3000 ms and the clock of the confirmation loop reads 3251, 6249 and 6250 after a start
  at 3250; the same with one forward transition of the knob during the confirmation.
\<close>

definition idle_tick :: tick where
  "idle_tick = \<lparr> isr_before_drain = [], isr_after_drain = [], button_low = False,
                 button_millis = 0, dateStr = [], confirmStart = 0, dwell_reads = [] \<rparr>"

definition press_tick :: "c_ulong \<Rightarrow> tick" where
  "press_tick now = idle_tick\<lparr>button_low := True, button_millis := now\<rparr>"

definition release_tick :: tick where
  "release_tick = idle_tick\<lparr>button_millis := 1500\<rparr>"

definition one_detent_back :: tick where
  "one_detent_back =
     idle_tick\<lparr>isr_before_drain := [(False, True), (True, True), (True, False), (False, False)]\<rparr>"

definition submit_tick :: tick where
  "submit_tick =
     \<lparr> isr_before_drain = [], isr_after_drain = [], button_low = True,
       button_millis = 3000, dateStr = ''02/11/2026'', confirmStart = 3250,
       dwell_reads = [([], 3251), ([], 6249), ([], 6250)] \<rparr>"

definition submit_tick_turned :: tick where
  "submit_tick_turned =
     submit_tick\<lparr>dwell_reads := [([(True, False)], 3251), ([], 6249), ([], 6250)]\<rparr>"

text \<open>
  Devices, with an empty trace: the class selection as it is after a press at 1000 ms,
  the mood selection after a second press at 2000 ms, and the latter with the phase set
  to the submission.
\<close>

definition class_screen :: device where
  "class_screen =
     globals\<lparr>currentState := STATE_CLASS_SELECTION, lastButtonPressTime := 1000,
       prevState := Some STATE_CLASS_SELECTION,
       prevNameIndex := 0, prevClassIndex := 0, prevMoodIndex := 0\<rparr>"

definition mood_screen :: device where
  "mood_screen =
     globals\<lparr>currentState := STATE_MOOD_SELECTION, lastButtonPressTime := 2000,
       prevState := Some STATE_MOOD_SELECTION,
       prevNameIndex := 0, prevClassIndex := 0, prevMoodIndex := 0\<rparr>"

definition submitting :: device where
  "submitting = mood_screen\<lparr>currentState := STATE_SUBMISSION\<rparr>"

definition clear_trace :: "fault + device \<Rightarrow> fault + device" where
  "clear_trace r = map_sum id (\<lambda>s. s\<lparr>trace := []\<rparr>) r"

text \<open>The arrays of the sketch with all mood messages but the first removed.\<close>

definition bad_config :: config where
  "bad_config = menu_data\<lparr>moodMessages := [''yes! Please stay happy !'']\<rparr>"

section \<open>The quadrature decoder\<close>

lemma forward_not_backward: "forward_code c \<Longrightarrow> \<not> backward_code c"
  by (auto simp: forward_code_def backward_code_def)

lemma updateEncoder_pos:
  "encoderPos (updateEncoder ab s) =
     encoderPos s + (if forward_code (transition_code (lastEncoded s) ab) then 1
                     else if backward_code (transition_code (lastEncoded s) ab) then - 1
                     else 0)"
  by (simp add: updateEncoder_def Let_def forward_code_def backward_code_def transition_code_def)

lemma updateEncoder_last: "lastEncoded (updateEncoder ab s) = encode ab"
  by (simp add: updateEncoder_def Let_def)

lemma interrupts_pos:
  "encoderPos (interrupts xs s) =
     encoderPos s + of_nat (forward_steps (lastEncoded s) xs)
                  - of_nat (backward_steps (lastEncoded s) xs)"
proof (induction xs arbitrary: s)
  case Nil
  show ?case by (simp add: forward_steps_def backward_steps_def)
next
  case (Cons ab xs)
  show ?case
    using forward_not_backward [of "transition_code (lastEncoded s) ab"]
    by (simp add: Cons.IH updateEncoder_pos updateEncoder_last
        forward_steps_def backward_steps_def)
qed

lemma steps_le_length:
  "forward_steps prev xs + backward_steps prev xs \<le> length xs"
proof -
  have "length (filter forward_code cs) + length (filter backward_code cs) \<le> length cs" for cs
    by (induction cs) (auto dest: forward_not_backward)
  moreover have "length (codes prev xs) = length xs"
    by (induction xs arbitrary: prev) auto
  ultimately show ?thesis
    unfolding forward_steps_def backward_steps_def by metis
qed

lemma sint_word_of_int_small:
  "- (2 ^ 31) \<le> k \<Longrightarrow> k < 2 ^ 31 \<Longrightarrow> sint (word_of_int k :: c_int) = k"
  by (simp add: sint_sbintrunc' signed_take_bit_int_eq_self)

lemma sint_steps:
  assumes "f + b < 2 ^ 31"
  shows "sint (of_nat f - of_nat b :: c_int) = int f - int b"
proof -
  have "of_nat f - of_nat b = (word_of_int (int f - int b) :: c_int)"
    by simp
  moreover have "sint (word_of_int (int f - int b) :: c_int) = int f - int b"
    using assms by (intro sint_word_of_int_small) auto
  ultimately show ?thesis by simp
qed

lemma no_valid_code_no_steps:
  assumes "\<forall>c \<in> set (codes prev xs). \<not> forward_code c \<and> \<not> backward_code c"
  shows "forward_steps prev xs = 0 \<and> backward_steps prev xs = 0"
  using assms by (simp add: forward_steps_def backward_steps_def filter_empty_conv)

text \<open>
  Claim C3. One run of the interrupt routine adds 1 to the counter when the transition
  code is one of the four forward codes, subtracts 1 when it is one of the four backward
  codes, and leaves the counter alone for every other code. Over any list of samples the
  counter therefore moves by the number of forward steps minus the number of backward
  steps among the codes met; the arithmetic is that of the 32-bit counter, and read as a
  signed number the counter is exactly that difference when it started at 0 (it has just
  been drained) and fewer than \<open>2 ^ 31\<close> samples came in. A list that meets no valid code
  leaves the counter where it was.
\<close>

theorem decoder_counts_valid_transitions:
  "encoderPos (updateEncoder ab s) =
     encoderPos s + (if forward_code (transition_code (lastEncoded s) ab) then 1
                     else if backward_code (transition_code (lastEncoded s) ab) then - 1
                     else 0)
   \<and> encoderPos (interrupts xs s) =
       encoderPos s + of_nat (forward_steps (lastEncoded s) xs)
                    - of_nat (backward_steps (lastEncoded s) xs)
   \<and> (encoderPos s = 0 \<and> length xs < 2 ^ 31 \<longrightarrow>
        sint (encoderPos (interrupts xs s)) =
          int (forward_steps (lastEncoded s) xs) - int (backward_steps (lastEncoded s) xs))
   \<and> ((\<forall>c \<in> set (codes (lastEncoded s) xs). \<not> forward_code c \<and> \<not> backward_code c) \<longrightarrow>
        encoderPos (interrupts xs s) = encoderPos s)"
proof (intro conjI impI)
  show "encoderPos (updateEncoder ab s) =
     encoderPos s + (if forward_code (transition_code (lastEncoded s) ab) then 1
                     else if backward_code (transition_code (lastEncoded s) ab) then - 1
                     else 0)"
    by (rule updateEncoder_pos)
next
  show "encoderPos (interrupts xs s) =
       encoderPos s + of_nat (forward_steps (lastEncoded s) xs)
                    - of_nat (backward_steps (lastEncoded s) xs)"
    by (rule interrupts_pos)
next
  assume a: "encoderPos s = 0 \<and> length xs < 2 ^ 31"
  have "forward_steps (lastEncoded s) xs + backward_steps (lastEncoded s) xs < 2 ^ 31"
    using steps_le_length [of "lastEncoded s" xs] a by linarith
  then show "sint (encoderPos (interrupts xs s)) =
          int (forward_steps (lastEncoded s) xs) - int (backward_steps (lastEncoded s) xs)"
    using a by (simp add: interrupts_pos sint_steps)
next
  assume "\<forall>c \<in> set (codes (lastEncoded s) xs). \<not> forward_code c \<and> \<not> backward_code c"
  then show "encoderPos (interrupts xs s) = encoderPos s"
    using no_valid_code_no_steps [of "lastEncoded s" xs] by (simp add: interrupts_pos)
qed

text \<open>
  From the stored pair 00 the samples 10, 11, 01, 11 give the codes 0010, 1011, 1101
  (forward) and 0111 (backward): the counter reads 2. The samples 00, 11 give the codes
  0000 and 0011, neither of them valid: the counter stays 0.
\<close>

theorem decoder_counts_valid_transitions_witness:
  "encoderPos globals = 0
   \<and> length [(True, False), (True, True), (False, True), (True, True)] < (2::nat) ^ 31
   \<and> sint (encoderPos
        (interrupts [(True, False), (True, True), (False, True), (True, True)] globals)) = 2
   \<and> list_all (\<lambda>c. \<not> forward_code c \<and> \<not> backward_code c)
         (codes (lastEncoded globals) [(False, False), (True, True)])
   \<and> encoderPos (interrupts [(False, False), (True, True)] globals) = encoderPos globals"
  using decoder_counts_valid_transitions
          [of "(True, False)" globals
              "[(True, False), (True, True), (False, True), (True, True)]"]
        decoder_counts_valid_transitions
          [of "(True, False)" globals "[(False, False), (True, True)]"]
  by (simp add: globals_def forward_steps_def backward_steps_def forward_code_def
      backward_code_def transition_code_def encode_def digitalRead_def)

section \<open>What each stage of the loop leaves alone\<close>

lemma updateEncoder_frame:
  "updateEncoder ab s =
     s\<lparr>encoderPos := encoderPos (updateEncoder ab s),
       lastEncoded := lastEncoded (updateEncoder ab s)\<rparr>"
  by (simp add: updateEncoder_def Let_def)

lemma interrupts_frame:
  "interrupts xs s =
     s\<lparr>encoderPos := encoderPos (interrupts xs s),
       lastEncoded := lastEncoded (interrupts xs s)\<rparr>"
proof (induction xs arbitrary: s)
  case Nil
  show ?case by simp
next
  case (Cons ab xs)
  have "interrupts (ab # xs) s = interrupts xs (updateEncoder ab s)" by simp
  also have "\<dots> = (updateEncoder ab s)
       \<lparr>encoderPos := encoderPos (interrupts xs (updateEncoder ab s)),
        lastEncoded := lastEncoded (interrupts xs (updateEncoder ab s))\<rparr>"
    by (rule Cons.IH)
  also have "\<dots> = s
       \<lparr>encoderPos := encoderPos (interrupts xs (updateEncoder ab s)),
        lastEncoded := lastEncoded (interrupts xs (updateEncoder ab s))\<rparr>"
    by (subst updateEncoder_frame) simp
  finally show ?case by simp
qed

lemma interrupts_fields [simp]:
  "currentState (interrupts xs s) = currentState s"
  "selectedNameIndex (interrupts xs s) = selectedNameIndex s"
  "selectedClassIndex (interrupts xs s) = selectedClassIndex s"
  "selectedMoodIndex (interrupts xs s) = selectedMoodIndex s"
  "lastButtonPressTime (interrupts xs s) = lastButtonPressTime s"
  "prevState (interrupts xs s) = prevState s"
  "prevNameIndex (interrupts xs s) = prevNameIndex s"
  "prevClassIndex (interrupts xs s) = prevClassIndex s"
  "prevMoodIndex (interrupts xs s) = prevMoodIndex s"
  "trace (interrupts xs s) = trace s"
  by (subst interrupts_frame, simp)+

lemma interrupts_append: "interrupts (xs @ ys) s = interrupts ys (interrupts xs s)"
  by (induction xs arbitrary: s) auto

lemma rotate_fields:
  assumes "rotate cfg pos s = Inr s'"
  shows "currentState s' = currentState s" "encoderPos s' = encoderPos s"
    "lastEncoded s' = lastEncoded s" "lastButtonPressTime s' = lastButtonPressTime s"
    "prevState s' = prevState s" "prevNameIndex s' = prevNameIndex s"
    "prevClassIndex s' = prevClassIndex s" "prevMoodIndex s' = prevMoodIndex s"
    "trace s' = trace s"
  using assms
  by (auto simp: rotate_def split: if_splits DeviceState.splits sum.splits)

lemma read_encoder_fields:
  assumes "read_encoder cfg e s = Inr s'"
  shows "currentState s' = currentState s" "lastButtonPressTime s' = lastButtonPressTime s"
    "prevState s' = prevState s" "prevNameIndex s' = prevNameIndex s"
    "prevClassIndex s' = prevClassIndex s" "prevMoodIndex s' = prevMoodIndex s"
    "trace s' = trace s"
  using assms rotate_fields [of cfg _ _ s']
  by (auto simp: read_encoder_def Let_def)

lemma read_button_eq:
  "read_button e s =
     (if accepted e s
      then emit (Delay 200)
             (s\<lparr>lastButtonPressTime := button_millis e,
                currentState := advance (currentState s)\<rparr>)
      else s)"
  by (simp add: read_button_def isButtonPressed_def accepted_def)

lemma displayMenu_shape:
  assumes "displayMenu cfg s = Inr s'"
  shows "\<exists>rows. s' = emit (Lcd rows) s"
  using assms
  by (auto simp: displayMenu_def split: DeviceState.splits sum.splits)

lemma updateOLED_shape:
  assumes "updateOLED cfg s = Inr s'"
  shows "\<exists>x. s' = emit x s \<and> is_oled x"
  using assms
  by (auto simp: updateOLED_def split: DeviceState.splits sum.splits)

lemma oled_calls_emit:
  "oled_calls (emit x s) = oled_calls s + (if is_oled x then 1 else 0)"
  by (simp add: oled_calls_def emit_def)

lemma emit_fields [simp]:
  "currentState (emit x s) = currentState s"
  "selectedNameIndex (emit x s) = selectedNameIndex s"
  "selectedClassIndex (emit x s) = selectedClassIndex s"
  "selectedMoodIndex (emit x s) = selectedMoodIndex s"
  "encoderPos (emit x s) = encoderPos s"
  "lastEncoded (emit x s) = lastEncoded s"
  "lastButtonPressTime (emit x s) = lastButtonPressTime s"
  "prevState (emit x s) = prevState s"
  "prevNameIndex (emit x s) = prevNameIndex s"
  "prevClassIndex (emit x s) = prevClassIndex s"
  "prevMoodIndex (emit x s) = prevMoodIndex s"
  "trace (emit x s) = trace s @ [x]"
  by (simp_all add: emit_def)

lemma refresh_menu_fields:
  assumes "refresh_menu cfg s = Inr s'"
  shows "currentState s' = currentState s"
    "selectedNameIndex s' = selectedNameIndex s"
    "selectedClassIndex s' = selectedClassIndex s"
    "selectedMoodIndex s' = selectedMoodIndex s"
    "encoderPos s' = encoderPos s" "lastEncoded s' = lastEncoded s"
    "lastButtonPressTime s' = lastButtonPressTime s"
    "oled_calls s' = oled_calls s"
  using assms displayMenu_shape [of cfg s]
  by (auto simp: refresh_menu_def remember_def oled_calls_def split: if_splits sum.splits)

lemma advance_selecting:
  "selecting st \<Longrightarrow> selecting (advance st) \<or> advance st = STATE_SUBMISSION"
  by (auto simp: selecting_def advance_def)

lemma loop_front_state:
  assumes "loop_front cfg e s = Inr s'"
  shows "currentState s' = (if accepted e s then advance (currentState s) else currentState s)"
proof -
  from assms obtain s1 s2 where
    s1: "read_encoder cfg e s = Inr s1" and
    s2: "refresh_menu cfg (read_button e s1) = Inr s2" and
    s3: "updateOLED cfg s2 = Inr s'"
    by (auto simp: loop_front_def split: sum.splits)
  have a: "accepted e s1 = accepted e s"
    using read_encoder_fields(2) [OF s1] by (simp add: accepted_def)
  have "currentState s' = currentState s2"
    using updateOLED_shape [OF s3] by auto
  also have "\<dots> = currentState (read_button e s1)"
    using refresh_menu_fields(1) [OF s2] .
  also have "\<dots> = (if accepted e s then advance (currentState s) else currentState s)"
    using read_encoder_fields(1) [OF s1] a by (simp add: read_button_eq)
  finally show ?thesis .
qed

lemma loop_front_oled:
  assumes "loop_front cfg e s = Inr s'"
  shows "oled_calls s' = oled_calls s + 1"
proof -
  from assms obtain s1 s2 where
    s1: "read_encoder cfg e s = Inr s1" and
    s2: "refresh_menu cfg (read_button e s1) = Inr s2" and
    s3: "updateOLED cfg s2 = Inr s'"
    by (auto simp: loop_front_def split: sum.splits)
  have "oled_calls s1 = oled_calls s"
    using read_encoder_fields(7) [OF s1] by (simp add: oled_calls_def)
  moreover have "oled_calls (read_button e s1) = oled_calls s1"
    by (simp add: read_button_eq oled_calls_emit) (simp add: oled_calls_def)
  moreover have "oled_calls s2 = oled_calls (read_button e s1)"
    using refresh_menu_fields(8) [OF s2] .
  moreover have "oled_calls s' = oled_calls s2 + 1"
    using updateOLED_shape [OF s3] by (auto simp: oled_calls_emit)
  ultimately show ?thesis by simp
qed

section \<open>The debounced button\<close>

text \<open>
  Claim C4, as the code has it. The poll answers true exactly when the pin reads pressed
  and strictly more than 200 ms (unsigned 32-bit difference) separate now from the last
  accepted press; then it stores now as the last accepted press, and in every other case
  it answers false and changes nothing.
\<close>

theorem button_accepts_after_more_than_200:
  "fst (isButtonPressed low now s) = (low \<and> 200 < unat (now - lastButtonPressTime s))
   \<and> snd (isButtonPressed low now s) =
       (if low \<and> 200 < unat (now - lastButtonPressTime s)
        then s\<lparr>lastButtonPressTime := now\<rparr> else s)"
  by (simp add: isButtonPressed_def word_less_nat_alt)

theorem button_accepts_after_more_than_200_witness:
  "fst (isButtonPressed True 1201 (globals\<lparr>lastButtonPressTime := 1000\<rparr>))
   \<and> lastButtonPressTime
       (snd (isButtonPressed True 1201 (globals\<lparr>lastButtonPressTime := 1000\<rparr>))) = 1201
   \<and> \<not> fst (isButtonPressed True 1100 (globals\<lparr>lastButtonPressTime := 1000\<rparr>))"
  using button_accepts_after_more_than_200
          [of True 1201 "globals\<lparr>lastButtonPressTime := 1000\<rparr>"]
        button_accepts_after_more_than_200
          [of True 1100 "globals\<lparr>lastButtonPressTime := 1000\<rparr>"]
  by simp

text \<open>
  A press read exactly 200 ms after the last accepted one is pressed and ``at least
  200 ms'' late, and the poll rejects it.
\<close>

theorem button_exactly_200_counterexample:
  "\<not> (fst (isButtonPressed True 1200 (globals\<lparr>lastButtonPressTime := 1000\<rparr>))
        \<longleftrightarrow> True \<and> (200::nat) \<le> unat (1200 - 1000 :: c_ulong))"
  by (simp add: isButtonPressed_def)

section \<open>The confirmation loop\<close>

lemma array_at_in_range: "in_range xs i \<Longrightarrow> array_at xs i = Inr (xs ! nat (sint i))"
  by (auto simp: array_at_def in_range_def)

lemma array_at_Inr: "array_at xs i = Inr x \<Longrightarrow> in_range xs i \<and> x = xs ! nat (sint i)"
  by (auto simp: array_at_def in_range_def split: if_splits)

lemma dwell_split:
  assumes "confirmation_dwell cfg start reads s = Inr s'"
  shows "\<exists>pre irqs now post. reads = pre @ (irqs, now) # post \<and>
           (\<forall>r \<in> set pre. snd r - start < 3000) \<and> \<not> now - start < 3000"
  using assms
proof (induction reads arbitrary: s)
  case Nil
  then show ?case by simp
next
  case (Cons r reads)
  obtain irqs now where r: "r = (irqs, now)" by (cases r)
  show ?case
  proof (cases "now - start < 3000")
    case True
    with Cons.prems r obtain s1 where
      "confirmation_dwell cfg start reads s1 = Inr s'"
      by (auto split: sum.splits)
    from Cons.IH [OF this] obtain pre irqs' now' post where
      p: "reads = pre @ (irqs', now') # post"
         "\<forall>r \<in> set pre. snd r - start < 3000" "\<not> now' - start < 3000"
      by blast
    have "r # reads = (r # pre) @ (irqs', now') # post" using p(1) by simp
    moreover have "\<forall>r' \<in> set (r # pre). snd r' - start < 3000"
      using p(2) True r by simp
    ultimately show ?thesis using p(3) by blast
  next
    case False
    have "r # reads = [] @ (irqs, now) # reads" using r by simp
    then show ?thesis using False by (metis empty_iff list.set(1))
  qed
qed

lemma dwell_fields:
  assumes "confirmation_dwell cfg start reads s = Inr s'"
  shows "currentState s' = currentState s \<and>
         selectedNameIndex s' = selectedNameIndex s \<and>
         selectedClassIndex s' = selectedClassIndex s \<and>
         selectedMoodIndex s' = selectedMoodIndex s \<and>
         lastButtonPressTime s' = lastButtonPressTime s \<and>
         prevState s' = prevState s \<and> prevNameIndex s' = prevNameIndex s \<and>
         prevClassIndex s' = prevClassIndex s \<and> prevMoodIndex s' = prevMoodIndex s"
  using assms
proof (induction reads arbitrary: s)
  case Nil
  then show ?case by simp
next
  case (Cons r reads)
  obtain irqs now where r: "r = (irqs, now)" by (cases r)
  show ?case
  proof (cases "now - start < 3000")
    case True
    with Cons.prems r obtain s1 where
      s1: "updateOLED cfg (interrupts irqs s) = Inr s1" and
      rest: "confirmation_dwell cfg start reads s1 = Inr s'"
      by (auto split: sum.splits)
    from updateOLED_shape [OF s1] obtain x where "s1 = emit x (interrupts irqs s)" by blast
    with Cons.IH [OF rest] show ?thesis by simp
  next
    case False
    with Cons.prems r show ?thesis by auto
  qed
qed

lemma dwell_oled:
  assumes "confirmation_dwell cfg start reads s = Inr s'"
  shows "oled_calls s' = oled_calls s + dwell_rounds start reads"
  using assms
proof (induction reads arbitrary: s)
  case Nil
  then show ?case by simp
next
  case (Cons r reads)
  obtain irqs now where r: "r = (irqs, now)" by (cases r)
  have i: "oled_calls (interrupts irqs s) = oled_calls s"
    by (simp add: oled_calls_def)
  show ?case
  proof (cases "now - start < 3000")
    case True
    with Cons.prems r obtain s1 where
      s1: "updateOLED cfg (interrupts irqs s) = Inr s1" and
      rest: "confirmation_dwell cfg start reads s1 = Inr s'"
      by (auto split: sum.splits)
    from updateOLED_shape [OF s1] have "oled_calls s1 = oled_calls s + 1"
      using i by (auto simp: oled_calls_emit)
    with Cons.IH [OF rest] True r show ?thesis by (simp add: dwell_rounds_def)
  next
    case False
    with Cons.prems r i show ?thesis by (auto simp: dwell_rounds_def)
  qed
qed

lemma dwell_returns:
  assumes "currentState s = STATE_CONFIRMATION"
    and "in_range (moodMessages cfg) (selectedMoodIndex s)"
    and "\<exists>r \<in> set reads. \<not> snd r - start < 3000"
  shows "\<exists>s'. confirmation_dwell cfg start reads s = Inr s'"
  using assms
proof (induction reads arbitrary: s)
  case Nil
  then show ?case by simp
next
  case (Cons r reads)
  obtain irqs now where r: "r = (irqs, now)" by (cases r)
  show ?case
  proof (cases "now - start < 3000")
    case True
    obtain m where m: "array_at (moodMessages cfg) (selectedMoodIndex s) = Inr m"
      using array_at_in_range [OF Cons.prems(2)] by blast
    let ?s1 = "emit (OledSmallMessage m) (interrupts irqs s)"
    have u: "updateOLED cfg (interrupts irqs s) = Inr ?s1"
      using Cons.prems(1) m by (simp add: updateOLED_def)
    have "\<exists>s'. confirmation_dwell cfg start reads ?s1 = Inr s'"
      using Cons.prems True r by (intro Cons.IH) auto
    then show ?thesis using True r u by simp
  next
    case False
    with r show ?thesis by simp
  qed
qed

section \<open>Concrete runs\<close>

text \<open>
  The definitions that a run on concrete inputs unfolds, and the two devices of the
  vocabulary as the sketch reaches them: the class selection after \<^verbatim>\<open>setup()\<close> and a press
  at 1000 ms, the mood selection after one more press at 2000 ms.
\<close>

lemmas eval_defs =
  loop_def loop_front_def read_encoder_def rotate_def read_button_def isButtonPressed_def
  refresh_menu_def menu_changed_def remember_def displayMenu_def updateOLED_def
  submission_def send_submission_def build_message_def reset_selection_def
  array_at_def c_rem_def emit_def advance_def updateEncoder_def encode_def digitalRead_def
  numNames_def numClasses_def numMoods_def menu_data_def globals_def
  idle_tick_def press_tick_def one_detent_back_def submit_tick_def submit_tick_turned_def
  class_screen_def mood_screen_def submitting_def boot_ok_def bad_config_def clear_trace_def
  setup_sketch_def setupWiFi_def startupAnimation_def signed_modulo_int_def Let_def

lemma class_screen_reached:
  "clear_trace (case setup_sketch menu_data boot_ok of
                  Inl err \<Rightarrow> Inl err
                | Inr s \<Rightarrow> run menu_data [press_tick 1000] s) = Inr class_screen"
  by (simp add: eval_defs)

lemma mood_screen_reached:
  "clear_trace (run menu_data [press_tick 2000] class_screen) = Inr mood_screen"
  by (simp add: eval_defs)

section \<open>Rotation past the start of the list\<close>

text \<open>
  Claim C1. The index after a rotation is \<^verbatim>\<open>(index + pos + n) % n\<close> with the truncating
  remainder of C++, so it is negative as soon as \<open>index + pos + n\<close> is. In the class
  selection (three classes) at index 0, one detent backwards drains \<open>pos = -4\<close>: the new
  index is \<open>-1\<close>, outside the list, and the iteration goes on to read \<^verbatim>\<open>classes[-1]\<close>
  for the LCD.
\<close>

theorem rotation_index_out_of_range:
  "rotate menu_data (- 4) class_screen = Inr (class_screen\<lparr>selectedClassIndex := - 1\<rparr>)
   \<and> \<not> in_range (classes menu_data) (- 1)
   \<and> encoderPos (interrupts (isr_before_drain one_detent_back) class_screen) = - 4
   \<and> loop menu_data one_detent_back class_screen = Inl ArrayOutOfBounds"
  by (simp add: eval_defs in_range_def)

section \<open>The submission\<close>

lemma send_submission_eq:
  assumes "in_range (names cfg) (selectedNameIndex s)"
    and "in_range (classes cfg) (selectedClassIndex s)"
    and "in_range (moods cfg) (selectedMoodIndex s)"
  shows "build_message cfg date s =
           Inr (''Name: '' @ names cfg ! nat (sint (selectedNameIndex s)) @ [CHR 0x0A] @
                ''Class: '' @ classes cfg ! nat (sint (selectedClassIndex s)) @ [CHR 0x0A] @
                ''Mood: '' @ moods cfg ! nat (sint (selectedMoodIndex s)) @ [CHR 0x0A] @
                ''Date: '' @ date)"
  using assms by (simp add: build_message_def array_at_in_range)

lemma send_submission_shape:
  assumes "send_submission cfg e s = Inr s1"
  shows "\<exists>m. build_message cfg (dateStr e) s = Inr m \<and>
             s1 = emit (Lcd [''Submitted!'', ''Thank you!''])
                    ((emit (Telegram m) s)\<lparr>currentState := STATE_CONFIRMATION\<rparr>)"
  using assms by (auto simp: send_submission_def displayMenu_def split: sum.splits)

text \<open>
  Claim C7. For indices inside their lists the message is the four lines
  \<open>Name: \<dots>\<close>, \<open>Class: \<dots>\<close>, \<open>Mood: \<dots>\<close>, \<open>Date: \<dots>\<close>, separated by line feeds, with
  the labels read from the three lists at the three indices and the date as it was passed
  in; that message, and no other, is what the submission hands to \<^verbatim>\<open>sendTelegramMessage\<close>.
\<close>

theorem submission_message_layout:
  assumes "in_range (names cfg) (selectedNameIndex s)"
    and "in_range (classes cfg) (selectedClassIndex s)"
    and "in_range (moods cfg) (selectedMoodIndex s)"
  shows "build_message cfg date s =
           Inr (''Name: '' @ names cfg ! nat (sint (selectedNameIndex s)) @ [CHR 0x0A] @
                ''Class: '' @ classes cfg ! nat (sint (selectedClassIndex s)) @ [CHR 0x0A] @
                ''Mood: '' @ moods cfg ! nat (sint (selectedMoodIndex s)) @ [CHR 0x0A] @
                ''Date: '' @ date)
         \<and> (\<exists>s1. send_submission cfg e s = Inr s1 \<and>
                trace s1 = trace s @
                  [Telegram
                     (''Name: '' @ names cfg ! nat (sint (selectedNameIndex s)) @ [CHR 0x0A] @
                      ''Class: '' @ classes cfg ! nat (sint (selectedClassIndex s)) @ [CHR 0x0A] @
                      ''Mood: '' @ moods cfg ! nat (sint (selectedMoodIndex s)) @ [CHR 0x0A] @
                      ''Date: '' @ dateStr e),
                   Lcd [''Submitted!'', ''Thank you!'']])"
  using assms
  by (simp add: send_submission_def send_submission_eq displayMenu_def)

theorem submission_message_layout_witness:
  "in_range (names menu_data) (selectedNameIndex (submitting\<lparr>selectedNameIndex := 1\<rparr>))
   \<and> in_range (classes menu_data) (selectedClassIndex (submitting\<lparr>selectedNameIndex := 1\<rparr>))
   \<and> in_range (moods menu_data) (selectedMoodIndex (submitting\<lparr>selectedNameIndex := 1\<rparr>))
   \<and> build_message menu_data ''02/11/2026'' (submitting\<lparr>selectedNameIndex := 1\<rparr>) =
        Inr (''Name: Nur Qalisha'' @ [CHR 0x0A] @ ''Class: Class 3'' @ [CHR 0x0A] @
             ''Mood: Happy'' @ [CHR 0x0A] @ ''Date: 02/11/2026'')"
proof -
  have a: "in_range (names menu_data) (selectedNameIndex (submitting\<lparr>selectedNameIndex := 1\<rparr>))"
    and b: "in_range (classes menu_data) (selectedClassIndex (submitting\<lparr>selectedNameIndex := 1\<rparr>))"
    and c: "in_range (moods menu_data) (selectedMoodIndex (submitting\<lparr>selectedNameIndex := 1\<rparr>))"
    by (simp_all add: in_range_def eval_defs)
  from submission_message_layout [OF a b c, of "''02/11/2026''" submit_tick]
  show ?thesis using a b c by (simp add: eval_defs)
qed

section \<open>The confirmation dwell\<close>

lemma submission_returns:
  assumes "currentState s = STATE_SUBMISSION"
    and "in_range (names cfg) (selectedNameIndex s)"
    and "in_range (classes cfg) (selectedClassIndex s)"
    and "in_range (moods cfg) (selectedMoodIndex s)"
    and "in_range (moodMessages cfg) (selectedMoodIndex s)"
    and "\<exists>r \<in> set (dwell_reads e). 3000 \<le> unat (snd r - confirmStart e)"
  shows "\<exists>s'. submission cfg e s = Inr s'"
proof -
  obtain m where m: "build_message cfg (dateStr e) s = Inr m"
    using send_submission_eq [OF assms(2,3,4)] by blast
  let ?s1 = "emit (Lcd [''Submitted!'', ''Thank you!''])
               ((emit (Telegram m) s)\<lparr>currentState := STATE_CONFIRMATION\<rparr>)"
  have s1: "send_submission cfg e s = Inr ?s1"
    using m by (simp add: send_submission_def displayMenu_def)
  have "\<exists>r \<in> set (dwell_reads e). \<not> snd r - confirmStart e < 3000"
    using assms(6) by (force simp: word_less_nat_alt)
  then have "\<exists>s2. confirmation_dwell cfg (confirmStart e) (dwell_reads e) ?s1 = Inr s2"
    using assms(5) by (intro dwell_returns) simp_all
  then show ?thesis using assms(1) s1 by (auto simp: submission_def)
qed

text \<open>
  Claim C6. When the submission block returns, the phase was set to the confirmation,
  stayed there through the loop, and the loop ended at a reading of the clock at least
  3000 ms (unsigned 32-bit difference) after \<open>confirmStart\<close>, every reading before it being
  less than 3000 ms after; the device then has phase name selection and the three indices
  0. The block does return when the indices are inside the lists and some reading of the
  clock is 3000 ms or more after \<open>confirmStart\<close>.
\<close>

theorem confirmation_lasts_3000:
  assumes "currentState s = STATE_SUBMISSION"
  shows "(submission cfg e s = Inr s' \<longrightarrow>
           (\<exists>s1 s2 pre irqs now post.
              send_submission cfg e s = Inr s1 \<and> currentState s1 = STATE_CONFIRMATION \<and>
              confirmation_dwell cfg (confirmStart e) (dwell_reads e) s1 = Inr s2 \<and>
              currentState s2 = STATE_CONFIRMATION \<and>
              dwell_reads e = pre @ (irqs, now) # post \<and>
              (\<forall>r \<in> set pre. unat (snd r - confirmStart e) < 3000) \<and>
              3000 \<le> unat (now - confirmStart e) \<and>
              s' = reset_selection s2 \<and>
              currentState s' = STATE_NAME_SELECTION \<and>
              selectedNameIndex s' = 0 \<and> selectedClassIndex s' = 0 \<and>
              selectedMoodIndex s' = 0))
       \<and> (in_range (names cfg) (selectedNameIndex s) \<and>
          in_range (classes cfg) (selectedClassIndex s) \<and>
          in_range (moods cfg) (selectedMoodIndex s) \<and>
          in_range (moodMessages cfg) (selectedMoodIndex s) \<and>
          (\<exists>r \<in> set (dwell_reads e). 3000 \<le> unat (snd r - confirmStart e)) \<longrightarrow>
          (\<exists>s''. submission cfg e s = Inr s''))"
proof (intro conjI impI)
  assume sub: "submission cfg e s = Inr s'"
  with assms obtain s1 s2 where
    s1: "send_submission cfg e s = Inr s1" and
    s2: "confirmation_dwell cfg (confirmStart e) (dwell_reads e) s1 = Inr s2" and
    s': "s' = reset_selection s2"
    by (auto simp: submission_def split: sum.splits)
  have c1: "currentState s1 = STATE_CONFIRMATION"
    using send_submission_shape [OF s1] by auto
  have c2: "currentState s2 = STATE_CONFIRMATION"
    using dwell_fields [OF s2] c1 by simp
  from dwell_split [OF s2] obtain pre irqs now post where
    p: "dwell_reads e = pre @ (irqs, now) # post"
       "\<forall>r \<in> set pre. snd r - confirmStart e < 3000"
       "\<not> now - confirmStart e < 3000"
    by blast
  have p2: "\<forall>r \<in> set pre. unat (snd r - confirmStart e) < 3000"
    using p(2) by (auto simp: word_less_nat_alt)
  have p3: "3000 \<le> unat (now - confirmStart e)"
    using p(3) by (auto simp: word_less_nat_alt)
  have r: "currentState s' = STATE_NAME_SELECTION \<and> selectedNameIndex s' = 0 \<and>
           selectedClassIndex s' = 0 \<and> selectedMoodIndex s' = 0"
    using s' by (simp add: reset_selection_def)
  show "\<exists>s1 s2 pre irqs now post.
              send_submission cfg e s = Inr s1 \<and> currentState s1 = STATE_CONFIRMATION \<and>
              confirmation_dwell cfg (confirmStart e) (dwell_reads e) s1 = Inr s2 \<and>
              currentState s2 = STATE_CONFIRMATION \<and>
              dwell_reads e = pre @ (irqs, now) # post \<and>
              (\<forall>r \<in> set pre. unat (snd r - confirmStart e) < 3000) \<and>
              3000 \<le> unat (now - confirmStart e) \<and>
              s' = reset_selection s2 \<and>
              currentState s' = STATE_NAME_SELECTION \<and>
              selectedNameIndex s' = 0 \<and> selectedClassIndex s' = 0 \<and>
              selectedMoodIndex s' = 0"
    using s1 c1 s2 c2 p(1) p2 p3 s' r by blast
next
  assume "in_range (names cfg) (selectedNameIndex s) \<and>
          in_range (classes cfg) (selectedClassIndex s) \<and>
          in_range (moods cfg) (selectedMoodIndex s) \<and>
          in_range (moodMessages cfg) (selectedMoodIndex s) \<and>
          (\<exists>r \<in> set (dwell_reads e). 3000 \<le> unat (snd r - confirmStart e))"
  then show "\<exists>s''. submission cfg e s = Inr s''"
    using submission_returns [OF assms] by blast
qed

theorem confirmation_lasts_3000_witness:
  "currentState submitting = STATE_SUBMISSION
   \<and> submission menu_data submit_tick submitting =
       Inr (globals\<lparr>lastButtonPressTime := 2000, prevNameIndex := 0, prevClassIndex := 0,
              prevMoodIndex := 0,
              trace := [Telegram (''Name: Tan Jetyu'' @ [CHR 0x0A] @ ''Class: Class 3'' @
                                  [CHR 0x0A] @ ''Mood: Happy'' @ [CHR 0x0A] @
                                  ''Date: 02/11/2026''),
                        Lcd [''Submitted!'', ''Thank you!''],
                        OledSmallMessage ''yes! Please stay happy !'',
                        OledSmallMessage ''yes! Please stay happy !'']\<rparr>)
   \<and> (\<exists>pre irqs now post.
         dwell_reads submit_tick = pre @ (irqs, now) # post \<and>
         3000 \<le> unat (now - confirmStart submit_tick))
   \<and> idx_ok menu_data submitting
   \<and> in_range (moodMessages menu_data) (selectedMoodIndex submitting)
   \<and> list_ex (\<lambda>r. 3000 \<le> unat (snd r - confirmStart submit_tick)) (dwell_reads submit_tick)"
proof -
  have a: "currentState submitting = STATE_SUBMISSION"
    by (simp add: eval_defs)
  have b: "submission menu_data submit_tick submitting =
       Inr (globals\<lparr>lastButtonPressTime := 2000, prevNameIndex := 0, prevClassIndex := 0,
              prevMoodIndex := 0,
              trace := [Telegram (''Name: Tan Jetyu'' @ [CHR 0x0A] @ ''Class: Class 3'' @
                                  [CHR 0x0A] @ ''Mood: Happy'' @ [CHR 0x0A] @
                                  ''Date: 02/11/2026''),
                        Lcd [''Submitted!'', ''Thank you!''],
                        OledSmallMessage ''yes! Please stay happy !'',
                        OledSmallMessage ''yes! Please stay happy !'']\<rparr>)"
    by (simp add: eval_defs)
  have c: "idx_ok menu_data submitting"
    "in_range (moodMessages menu_data) (selectedMoodIndex submitting)"
    "list_ex (\<lambda>r. 3000 \<le> unat (snd r - confirmStart submit_tick)) (dwell_reads submit_tick)"
    by (simp_all add: idx_ok_def in_range_def eval_defs)
  from confirmation_lasts_3000 [OF a, of menu_data submit_tick] b
  show ?thesis using a c by blast
qed

section \<open>The phase between iterations\<close>

lemma submission_state:
  assumes "submission cfg e s = Inr s'"
  shows "currentState s' =
           (if currentState s = STATE_SUBMISSION then STATE_NAME_SELECTION else currentState s)"
  using assms
  by (auto simp: submission_def reset_selection_def split: if_splits sum.splits)

lemma loop_selecting:
  assumes "selecting (currentState s)" and "loop cfg e s = Inr s'"
  shows "selecting (currentState s')"
proof -
  from assms(2) obtain s1 where
    f: "loop_front cfg e s = Inr s1" and b: "submission cfg e s1 = Inr s'"
    by (auto simp: loop_def split: sum.splits)
  have "selecting (currentState s1) \<or> currentState s1 = STATE_SUBMISSION"
    using loop_front_state [OF f] assms(1) advance_selecting [of "currentState s"]
    by (auto split: if_splits)
  then show ?thesis
    using submission_state [OF b] by (auto simp: selecting_def)
qed

lemma run_selecting:
  assumes "selecting (currentState s)" and "run cfg es s = Inr s'"
  shows "selecting (currentState s')"
  using assms
proof (induction es arbitrary: s)
  case Nil
  then show ?case by simp
next
  case (Cons e es)
  from Cons.prems(2) obtain s1 where
    l: "loop cfg e s = Inr s1" and r: "run cfg es s1 = Inr s'"
    by (auto split: sum.splits)
  show ?case
    using Cons.IH [OF loop_selecting [OF Cons.prems(1) l] r] .
qed

lemma wait_for_wifi_state:
  "wait_for_wifi ws s = Inr s' \<Longrightarrow> currentState s' = currentState s"
  by (induction ws arbitrary: s) (auto split: if_splits)

lemma setup_sketch_state:
  assumes "setup_sketch cfg b = Inr s0"
  shows "currentState s0 = STATE_NAME_SELECTION"
proof -
  let ?s = "interrupts (isr_during_setup b) (startupAnimation (emit (OledText []) globals))"
  have g: "currentState ?s = STATE_NAME_SELECTION"
    by (simp add: startupAnimation_def globals_def emit_def)
  from assms obtain s1 s2 where
    w: "setupWiFi b ?s = Inr s1" and
    d: "displayMenu cfg
          (s1\<lparr>prevState := None, prevNameIndex := - 1,
              prevClassIndex := - 1, prevMoodIndex := - 1\<rparr>) = Inr s2" and
    s0: "s0 = emit OledEyes s2"
    by (auto simp: setup_sketch_def split: if_splits sum.splits)
  from w obtain s1' where
    "wait_for_wifi (wifi_connected b) (emit (OledText [''Connecting to WiFi...'']) ?s) = Inr s1'"
    and "s1 = emit (Delay 2000) (emit (OledText [''WiFi Connected!'', ''IP:'', local_ip b]) s1')"
    by (auto simp: setupWiFi_def split: sum.splits)
  then have "currentState s1 = STATE_NAME_SELECTION"
    using wait_for_wifi_state g by fastforce
  then show ?thesis
    using displayMenu_shape [OF d] s0 by auto
qed

text \<open>
  Claim C10. After \<^verbatim>\<open>setup()\<close> and any number of iterations of \<^verbatim>\<open>loop()\<close> the phase is one
  of the three selections; each single iteration that starts in a selection ends in one,
  the iteration that submits included.
\<close>

theorem phase_selecting_between_iterations:
  "(setup_sketch cfg b = Inr s0 \<and> run cfg es s0 = Inr s \<longrightarrow> selecting (currentState s))
   \<and> (selecting (currentState t) \<and> loop cfg e t = Inr t' \<longrightarrow> selecting (currentState t'))"
proof (intro conjI impI)
  assume a: "setup_sketch cfg b = Inr s0 \<and> run cfg es s0 = Inr s"
  then have "selecting (currentState s0)"
    using setup_sketch_state [of cfg b s0] by (simp add: selecting_def)
  then show "selecting (currentState s)"
    using a run_selecting by blast
next
  assume "selecting (currentState t) \<and> loop cfg e t = Inr t'"
  then show "selecting (currentState t')"
    using loop_selecting by blast
qed

text \<open>
  \<^verbatim>\<open>setup()\<close> on the concrete start, and three presses from there: the third iteration
  submits, waits, resets, and leaves the name selection behind.
\<close>

lemma setup_boot_ok: "setup_sketch menu_data boot_ok = Inr after_boot"
  by (simp add: eval_defs after_boot_def)

lemma three_presses_run:
  "clear_trace (run menu_data [press_tick 1000, press_tick 2000, submit_tick] after_boot) =
     Inr (globals\<lparr>lastButtonPressTime := 3000, prevNameIndex := 0, prevClassIndex := 0,
            prevMoodIndex := 0\<rparr>)"
  by (simp add: eval_defs after_boot_def)

theorem phase_selecting_between_iterations_witness:
  "setup_sketch menu_data boot_ok = Inr after_boot
   \<and> (\<exists>s. run menu_data [press_tick 1000, press_tick 2000, submit_tick] after_boot = Inr s \<and>
           selecting (currentState s))
   \<and> selecting (currentState mood_screen)
   \<and> (\<exists>t'. loop menu_data submit_tick mood_screen = Inr t' \<and> selecting (currentState t'))"
proof -
  let ?es = "[press_tick 1000, press_tick 2000, submit_tick]"
  have "\<not> isl (run menu_data ?es after_boot)"
    by (simp add: eval_defs after_boot_def)
  then obtain s where r: "run menu_data ?es after_boot = Inr s"
    by (cases "run menu_data ?es after_boot") auto
  have "\<not> isl (loop menu_data submit_tick mood_screen)"
    by (simp add: eval_defs)
  then obtain t' where l: "loop menu_data submit_tick mood_screen = Inr t'"
    by (cases "loop menu_data submit_tick mood_screen") auto
  have m: "selecting (currentState mood_screen)"
    by (simp add: selecting_def mood_screen_def)
  from phase_selecting_between_iterations
         [of menu_data boot_ok after_boot ?es s mood_screen submit_tick t']
       setup_boot_ok r l m
  show ?thesis by blast
qed

section \<open>The OLED\<close>

lemma dwell_messages:
  assumes "currentState s = STATE_CONFIRMATION"
    and "array_at (moodMessages cfg) (selectedMoodIndex s) = Inr msg"
    and "confirmation_dwell cfg start reads s = Inr s'"
  shows "trace s' = trace s @ replicate (dwell_rounds start reads) (OledSmallMessage msg)"
  using assms
proof (induction reads arbitrary: s)
  case Nil
  then show ?case by simp
next
  case (Cons r reads)
  obtain irqs now where r: "r = (irqs, now)" by (cases r)
  show ?case
  proof (cases "now - start < 3000")
    case True
    let ?s1 = "emit (OledSmallMessage msg) (interrupts irqs s)"
    have u: "updateOLED cfg (interrupts irqs s) = Inr ?s1"
      using Cons.prems(1,2) by (simp add: updateOLED_def)
    with Cons.prems(3) True r have rest: "confirmation_dwell cfg start reads ?s1 = Inr s'"
      by simp
    have "trace s' = trace ?s1 @ replicate (dwell_rounds start reads) (OledSmallMessage msg)"
      using Cons.prems(1,2) by (intro Cons.IH [OF _ _ rest]) simp_all
    then show ?thesis
      using True r by (simp add: dwell_rounds_def)
  next
    case False
    with Cons.prems r show ?thesis by (auto simp: dwell_rounds_def)
  qed
qed

lemma loop_front_ends_with_updateOLED:
  assumes "loop_front cfg e s = Inr s1"
  shows "\<exists>s'. updateOLED cfg s' = Inr s1"
  using assms by (auto simp: loop_front_def split: sum.splits)

lemma updateOLED_idle:
  "currentState t = STATE_NAME_SELECTION \<or> currentState t = STATE_CLASS_SELECTION \<Longrightarrow>
   updateOLED cfg t = Inr (emit OledEyes t)"
  by (auto simp: updateOLED_def)

text \<open>
  Claim C9, as the code has it. \<^verbatim>\<open>updateOLED()\<close> is called once in every iteration, whatever
  the phase and whether or not anything changed: the part of the iteration in front of
  the submission adds exactly one call that draws on the OLED, and ends with it. In the
  mood selection that call draws the icon of the current mood index and looks at nothing
  else; in the name and class selections it runs the idle animation. The confirmation
  loop draws the message of the mood once for every time its condition holds.
\<close>

theorem oled_drawn_every_tick:
  "(loop_front cfg e s = Inr s1 \<longrightarrow> oled_calls s1 = oled_calls s + 1)
   \<and> (loop cfg e s = Inr s2 \<longrightarrow> oled_calls s < oled_calls s2)
   \<and> (currentState t = STATE_MOOD_SELECTION \<longrightarrow>
        updateOLED cfg t = Inr (emit (OledEmotion (selectedMoodIndex t)) t))
   \<and> (confirmation_dwell cfg start reads u = Inr u' \<longrightarrow>
        oled_calls u' = oled_calls u + dwell_rounds start reads)
   \<and> (loop_front cfg e s = Inr s1 \<longrightarrow> (\<exists>s'. updateOLED cfg s' = Inr s1))
   \<and> (currentState t = STATE_NAME_SELECTION \<or> currentState t = STATE_CLASS_SELECTION \<longrightarrow>
        updateOLED cfg t = Inr (emit OledEyes t))
   \<and> (currentState u = STATE_CONFIRMATION \<and>
       array_at (moodMessages cfg) (selectedMoodIndex u) = Inr msg \<and>
       confirmation_dwell cfg start reads u = Inr u' \<longrightarrow>
        trace u' = trace u @ replicate (dwell_rounds start reads) (OledSmallMessage msg))"
proof (intro conjI impI)
  assume "loop_front cfg e s = Inr s1"
  then show "oled_calls s1 = oled_calls s + 1" by (rule loop_front_oled)
next
  assume "loop cfg e s = Inr s2"
  then obtain s1 where
    f: "loop_front cfg e s = Inr s1" and b: "submission cfg e s1 = Inr s2"
    by (auto simp: loop_def split: sum.splits)
  have "oled_calls s1 \<le> oled_calls s2"
  proof (cases "currentState s1 = STATE_SUBMISSION")
    case True
    with b obtain a d where
      a: "send_submission cfg e s1 = Inr a" and
      d: "confirmation_dwell cfg (confirmStart e) (dwell_reads e) a = Inr d" and
      s2: "s2 = reset_selection d"
      by (auto simp: submission_def split: sum.splits)
    have "oled_calls a = oled_calls s1"
      using send_submission_shape [OF a] by (auto simp: oled_calls_def emit_def)
    moreover have "oled_calls s2 = oled_calls d"
      using s2 by (simp add: oled_calls_def reset_selection_def)
    ultimately show ?thesis using dwell_oled [OF d] by simp
  next
    case False
    with b show ?thesis by (simp add: submission_def)
  qed
  then show "oled_calls s < oled_calls s2"
    using loop_front_oled [OF f] by simp
next
  assume "currentState t = STATE_MOOD_SELECTION"
  then show "updateOLED cfg t = Inr (emit (OledEmotion (selectedMoodIndex t)) t)"
    by (simp add: updateOLED_def)
next
  assume "confirmation_dwell cfg start reads u = Inr u'"
  then show "oled_calls u' = oled_calls u + dwell_rounds start reads" by (rule dwell_oled)
next
  assume "loop_front cfg e s = Inr s1"
  then show "\<exists>s'. updateOLED cfg s' = Inr s1" by (rule loop_front_ends_with_updateOLED)
next
  assume "currentState t = STATE_NAME_SELECTION \<or> currentState t = STATE_CLASS_SELECTION"
  then show "updateOLED cfg t = Inr (emit OledEyes t)" by (rule updateOLED_idle)
next
  assume "currentState u = STATE_CONFIRMATION \<and>
       array_at (moodMessages cfg) (selectedMoodIndex u) = Inr msg \<and>
       confirmation_dwell cfg start reads u = Inr u'"
  then show "trace u' = trace u @ replicate (dwell_rounds start reads) (OledSmallMessage msg)"
    using dwell_messages by blast
qed

theorem oled_drawn_every_tick_witness:
  "loop_front menu_data idle_tick mood_screen = Inr (mood_screen\<lparr>trace := [OledEmotion 0]\<rparr>)
   \<and> oled_calls (mood_screen\<lparr>trace := [OledEmotion 0]\<rparr>) = oled_calls mood_screen + 1
   \<and> loop menu_data idle_tick mood_screen = Inr (mood_screen\<lparr>trace := [OledEmotion 0]\<rparr>)
   \<and> oled_calls mood_screen < oled_calls (mood_screen\<lparr>trace := [OledEmotion 0]\<rparr>)
   \<and> currentState mood_screen = STATE_MOOD_SELECTION
   \<and> updateOLED menu_data mood_screen = Inr (mood_screen\<lparr>trace := [OledEmotion 0]\<rparr>)
   \<and> confirmation_dwell menu_data 3250 (dwell_reads submit_tick)
         (mood_screen\<lparr>currentState := STATE_CONFIRMATION\<rparr>) =
       Inr (mood_screen\<lparr>currentState := STATE_CONFIRMATION,
              trace := [OledSmallMessage ''yes! Please stay happy !'',
                        OledSmallMessage ''yes! Please stay happy !'']\<rparr>)
   \<and> dwell_rounds 3250 (dwell_reads submit_tick) = 2
   \<and> array_at (moodMessages menu_data)
         (selectedMoodIndex (mood_screen\<lparr>currentState := STATE_CONFIRMATION\<rparr>)) =
       Inr ''yes! Please stay happy !''
   \<and> currentState class_screen = STATE_CLASS_SELECTION
   \<and> updateOLED menu_data class_screen = Inr (class_screen\<lparr>trace := [OledEyes]\<rparr>)"
proof -
  let ?m = "mood_screen\<lparr>trace := [OledEmotion 0]\<rparr>"
  let ?c = "mood_screen\<lparr>currentState := STATE_CONFIRMATION\<rparr>"
  let ?c' = "mood_screen\<lparr>currentState := STATE_CONFIRMATION,
              trace := [OledSmallMessage ''yes! Please stay happy !'',
                        OledSmallMessage ''yes! Please stay happy !'']\<rparr>"
  have a: "loop_front menu_data idle_tick mood_screen = Inr ?m"
    and l: "loop menu_data idle_tick mood_screen = Inr ?m"
    by (simp_all add: eval_defs)
  have b: "currentState mood_screen = STATE_MOOD_SELECTION"
    by (simp add: mood_screen_def)
  have d: "confirmation_dwell menu_data 3250 (dwell_reads submit_tick) ?c = Inr ?c'"
    by (simp add: eval_defs)
  have r: "dwell_rounds 3250 (dwell_reads submit_tick) = 2"
    by (simp add: dwell_rounds_def submit_tick_def)
  have m: "array_at (moodMessages menu_data) (selectedMoodIndex ?c) =
             Inr ''yes! Please stay happy !''"
    by (simp add: eval_defs)
  have k: "currentState class_screen = STATE_CLASS_SELECTION"
    by (simp add: class_screen_def)
  from oled_drawn_every_tick
         [of menu_data idle_tick mood_screen ?m ?m mood_screen 3250
             "dwell_reads submit_tick" ?c ?c' "''yes! Please stay happy !''"]
       oled_drawn_every_tick
         [of menu_data idle_tick mood_screen ?m ?m class_screen 3250
             "dwell_reads submit_tick" ?c ?c' "''yes! Please stay happy !''"]
       a l b d r m k
  show ?thesis by (simp add: eval_defs)
qed

text \<open>
  In the mood selection, with the remembered phase and mood index equal to the current
  ones, an iteration without rotation and without press leaves the LCD alone and draws
  the mood icon on the OLED again.
\<close>

theorem oled_redrawn_without_change_counterexample:
  "currentState mood_screen = STATE_MOOD_SELECTION
   \<and> prevState mood_screen = Some (currentState mood_screen)
   \<and> prevMoodIndex mood_screen = selectedMoodIndex mood_screen
   \<and> loop menu_data idle_tick mood_screen = Inr (mood_screen\<lparr>trace := [OledEmotion 0]\<rparr>)
   \<and> oled_calls (mood_screen\<lparr>trace := [OledEmotion 0]\<rparr>) = oled_calls mood_screen + 1"
  by (simp add: eval_defs oled_calls_def)

section \<open>Startup\<close>

lemma displayMenu_ignores_moodMessages:
  "currentState s = STATE_NAME_SELECTION \<Longrightarrow>
   displayMenu (cfg\<lparr>moods := ms, moodMessages := mm\<rparr>) s = displayMenu cfg s"
  by (simp add: displayMenu_def)

lemma setupWiFi_state:
  assumes "setupWiFi b s = Inr s1"
  shows "currentState s1 = currentState s"
  using assms wait_for_wifi_state
  by (fastforce simp: setupWiFi_def split: sum.splits)

text \<open>
  Claim C8, as the code has it. \<^verbatim>\<open>setup()\<close> compares no lengths: what it does is the same
  whatever the mood list and the mood-message list are. The two lists of the sketch have
  the same length, five, by the way they are written.
\<close>

theorem setup_never_compares_lists:
  "setup_sketch (cfg\<lparr>moods := ms, moodMessages := mm\<rparr>) b = setup_sketch cfg b
   \<and> length (moodMessages menu_data) = length (moods menu_data)"
proof -
  let ?s = "interrupts (isr_during_setup b) (startupAnimation (emit (OledText []) globals))"
  have g: "currentState ?s = STATE_NAME_SELECTION"
    by (simp add: startupAnimation_def globals_def emit_def)
  have "setup_sketch (cfg\<lparr>moods := ms, moodMessages := mm\<rparr>) b = setup_sketch cfg b"
  proof (cases "setupWiFi b ?s")
    case (Inl err)
    then show ?thesis by (simp add: setup_sketch_def)
  next
    case (Inr s1)
    then have "currentState s1 = STATE_NAME_SELECTION"
      using setupWiFi_state g by metis
    then show ?thesis
      using Inr by (simp add: setup_sketch_def displayMenu_def)
  qed
  then show ?thesis by (simp add: menu_data_def)
qed

text \<open>
  With five moods and one mood message \<^verbatim>\<open>setup()\<close> ends as it does with the lists of the
  sketch, and the first iteration of the loop handles a press.
\<close>

theorem setup_proceeds_on_mismatch_counterexample:
  "length (moodMessages bad_config) \<noteq> length (moods bad_config)
   \<and> setup_sketch bad_config boot_ok = Inr after_boot
   \<and> run bad_config [press_tick 1000] after_boot =
       Inr (class_screen\<lparr>trace := trace after_boot @
              [Delay 200, Lcd [''Select Class:'', ''Class 3''], OledEyes]\<rparr>)"
  by (simp add: eval_defs after_boot_def)

section \<open>Rotation within the list\<close>

lemma sint_of_nat_small: "n < 2 ^ 31 \<Longrightarrow> sint (of_nat n :: c_int) = int n"
  using sint_word_of_int_small [of "int n"] by simp

lemma sint_add3:
  assumes "- (2 ^ 31) \<le> sint a + sint b + sint c" "sint a + sint b + sint c < 2 ^ 31"
  shows "sint (a + b + c :: c_int) = sint a + sint b + sint c"
proof -
  have "a + b + c = word_of_int (sint a + sint b + sint c)"
    by simp
  then show ?thesis
    using assms sint_word_of_int_small by metis
qed

lemma c_rem_in_range:
  assumes wf: "wf_list xs" and cur: "in_range xs cur"
    and lo: "- int (length xs) \<le> sint pos" and hi: "sint pos < 2 ^ 30"
  shows "\<exists>i. c_rem (cur + pos + of_nat (length xs)) (of_nat (length xs)) = Inr i \<and> in_range xs i"
proof -
  let ?n = "length xs"
  let ?N = "of_nat ?n :: c_int"
  from wf have n: "0 < ?n" "?n < 2 ^ 29" by (auto simp: wf_list_def)
  then have sN: "sint ?N = int ?n" by (intro sint_of_nat_small) simp
  have N0: "?N \<noteq> 0" using sN n by auto
  have Nm1: "?N \<noteq> - 1" using sN n by auto
  from cur have c: "0 \<le> sint cur" "sint cur < int ?n" by (auto simp: in_range_def)
  have int_n: "int ?n < 2 ^ 29" using n by simp
  have sa: "sint (cur + pos + ?N) = sint cur + sint pos + int ?n"
    using c lo hi int_n sN by (subst sint_add3) auto
  define a where "a = sint cur + sint pos + int ?n"
  have a0: "0 \<le> a" using c lo by (simp add: a_def)
  have "a smod int ?n = a mod int ?n"
    using a0 by (simp add: smod_mod_positive)
  moreover have "0 \<le> a mod int ?n" "a mod int ?n < int ?n"
    using n by simp_all
  ultimately have r: "0 \<le> a smod int ?n" "a smod int ?n < int ?n" by simp_all
  then have "sint (word_of_int (a smod int ?n) :: c_int) = a smod int ?n"
    using int_n by (intro sint_word_of_int_small) auto
  with r have "in_range xs (word_of_int (a smod int ?n))"
    by (simp add: in_range_def)
  moreover have "c_rem (cur + pos + ?N) ?N = Inr (word_of_int (a smod int ?n))"
    using N0 Nm1 by (simp add: c_rem_def sa sN a_def)
  ultimately show ?thesis by blast
qed

lemma rotate_returns:
  assumes wf: "wf_config cfg" and ok: "idx_ok cfg s"
    and lo: "- int (menu_length cfg (currentState s)) \<le> sint pos"
    and hi: "sint pos < 2 ^ 30"
  shows "\<exists>s'. rotate cfg pos s = Inr s' \<and> idx_ok cfg s'"
proof (cases "pos = 0")
  case True
  then show ?thesis using ok by (simp add: rotate_def)
next
  case False
  show ?thesis
  proof (cases "currentState s")
    case STATE_NAME_SELECTION
    with c_rem_in_range [of "names cfg" "selectedNameIndex s" pos] wf ok lo hi
    obtain i where "c_rem (selectedNameIndex s + pos + numNames cfg) (numNames cfg) = Inr i"
      "in_range (names cfg) i"
      by (auto simp: wf_config_def idx_ok_def menu_length_def numNames_def)
    then show ?thesis
      using False STATE_NAME_SELECTION ok by (simp add: rotate_def idx_ok_def)
  next
    case STATE_CLASS_SELECTION
    with c_rem_in_range [of "classes cfg" "selectedClassIndex s" pos] wf ok lo hi
    obtain i where "c_rem (selectedClassIndex s + pos + numClasses cfg) (numClasses cfg) = Inr i"
      "in_range (classes cfg) i"
      by (auto simp: wf_config_def idx_ok_def menu_length_def numClasses_def)
    then show ?thesis
      using False STATE_CLASS_SELECTION ok by (simp add: rotate_def idx_ok_def)
  next
    case STATE_MOOD_SELECTION
    with c_rem_in_range [of "moods cfg" "selectedMoodIndex s" pos] wf ok lo hi
    obtain i where "c_rem (selectedMoodIndex s + pos + numMoods cfg) (numMoods cfg) = Inr i"
      "in_range (moods cfg) i"
      by (auto simp: wf_config_def idx_ok_def menu_length_def numMoods_def)
    then show ?thesis
      using False STATE_MOOD_SELECTION ok by (simp add: rotate_def idx_ok_def)
  next
    case STATE_SUBMISSION
    then show ?thesis using ok by (simp add: rotate_def)
  next
    case STATE_CONFIRMATION
    then show ?thesis using ok by (simp add: rotate_def)
  qed
qed

lemma idx_ok_cong:
  assumes "selectedNameIndex t = selectedNameIndex s"
    and "selectedClassIndex t = selectedClassIndex s"
    and "selectedMoodIndex t = selectedMoodIndex s"
  shows "idx_ok cfg t = idx_ok cfg s"
  using assms by (simp add: idx_ok_def)

lemma displayMenu_returns:
  assumes "idx_ok cfg s"
  shows "\<exists>rows. displayMenu cfg s = Inr (emit (Lcd rows) s)"
  using assms
  by (cases "currentState s") (auto simp: displayMenu_def idx_ok_def array_at_in_range)

lemma refresh_menu_returns:
  assumes "idx_ok cfg s"
  shows "\<exists>s'. refresh_menu cfg s = Inr s'"
  using displayMenu_returns [OF assms]
  by (auto simp: refresh_menu_def)

lemma updateOLED_returns:
  assumes "currentState s \<noteq> STATE_CONFIRMATION"
  shows "\<exists>s'. updateOLED cfg s = Inr s'"
  using assms by (cases "currentState s") (auto simp: updateOLED_def)

lemma loop_front_returns:
  assumes wf: "wf_config cfg" and ok: "idx_ok cfg s"
    and sel: "selecting (currentState s)" and g: "gentle cfg e s"
  shows "\<exists>s'. loop_front cfg e s = Inr s' \<and> idx_ok cfg s' \<and>
           currentState s' = (if accepted e s then advance (currentState s) else currentState s) \<and>
           lastButtonPressTime s' =
             (if accepted e s then button_millis e else lastButtonPressTime s) \<and>
           encoderPos s' = encoderPos (after_drain e s) \<and>
           lastEncoded s' = lastEncoded (after_drain e s)"
proof -
  let ?a = "after_drain e s"
  have ok_a: "idx_ok cfg ?a"
    using ok by (simp add: idx_ok_def after_drain_def)
  have st_a: "currentState ?a = currentState s"
    by (simp add: after_drain_def)
  from rotate_returns [OF wf ok_a, of "drained e s"] g st_a
  obtain s1 where r: "rotate cfg (drained e s) ?a = Inr s1" and ok1: "idx_ok cfg s1"
    by (auto simp: gentle_def)
  have re: "read_encoder cfg e s = Inr s1"
    using r by (simp add: read_encoder_def Let_def drained_def after_drain_def)
  note f1 = rotate_fields [OF r]
  have acc: "accepted e s1 = accepted e s"
    using f1(4) by (simp add: accepted_def after_drain_def)
  let ?b = "read_button e s1"
  have ok_b: "idx_ok cfg ?b"
    using ok1 by (simp add: read_button_eq idx_ok_def)
  from refresh_menu_returns [OF ok_b] obtain s2 where m: "refresh_menu cfg ?b = Inr s2"
    by blast
  note f2 = refresh_menu_fields [OF m]
  have st2: "currentState s2 = (if accepted e s then advance (currentState s) else currentState s)"
    using f2(1) f1(1) st_a acc by (simp add: read_button_eq)
  have "currentState s2 \<noteq> STATE_CONFIRMATION"
    using st2 sel by (auto simp: selecting_def advance_def split: if_splits)
  from updateOLED_returns [OF this] obtain s3 where u: "updateOLED cfg s2 = Inr s3"
    by blast
  from updateOLED_shape [OF u] obtain x where s3: "s3 = emit x s2" by blast
  have lf: "loop_front cfg e s = Inr s3"
    using re m u by (simp add: loop_front_def)
  have ok3: "idx_ok cfg s3"
    using ok_b f2(2,3,4) s3 by (simp add: idx_ok_def)
  have t3: "lastButtonPressTime s3 =
             (if accepted e s then button_millis e else lastButtonPressTime s)"
    using s3 f2(7) f1(4) acc by (simp add: read_button_eq after_drain_def)
  have e3: "encoderPos s3 = encoderPos ?a" "lastEncoded s3 = lastEncoded ?a"
    using s3 f2(5,6) f1(2,3) by (simp_all add: read_button_eq)
  show ?thesis
    using lf ok3 st2 t3 e3 s3 by simp
qed

section \<open>Three presses\<close>

lemma interrupts_enc_cong:
  assumes "encoderPos s = encoderPos t" and "lastEncoded s = lastEncoded t"
  shows "encoderPos (interrupts xs s) = encoderPos (interrupts xs t) \<and>
         lastEncoded (interrupts xs s) = lastEncoded (interrupts xs t)"
  using assms
proof (induction xs arbitrary: s t)
  case Nil
  then show ?case by simp
next
  case (Cons ab xs)
  have "encoderPos (updateEncoder ab s) = encoderPos (updateEncoder ab t)"
    using Cons.prems by (simp add: updateEncoder_pos)
  moreover have "lastEncoded (updateEncoder ab s) = lastEncoded (updateEncoder ab t)"
    by (simp add: updateEncoder_last)
  ultimately show ?case
    using Cons.IH [of "updateEncoder ab s" "updateEncoder ab t"] by simp
qed

lemma loop_front_encoder:
  assumes "loop_front cfg e s = Inr s'"
  shows "encoderPos s' = encoderPos (after_drain e s) \<and>
         lastEncoded s' = lastEncoded (after_drain e s)"
proof -
  from assms obtain s1 s2 where
    s1: "read_encoder cfg e s = Inr s1" and
    s2: "refresh_menu cfg (read_button e s1) = Inr s2" and
    s3: "updateOLED cfg s2 = Inr s'"
    by (auto simp: loop_front_def split: sum.splits)
  from s1 have r: "rotate cfg (drained e s) (after_drain e s) = Inr s1"
    by (simp add: read_encoder_def Let_def drained_def after_drain_def)
  note f1 = rotate_fields [OF r]
  note f2 = refresh_menu_fields [OF s2]
  from updateOLED_shape [OF s3] obtain x where "s' = emit x s2" by blast
  then show ?thesis
    using f1(2,3) f2(5,6) by (simp add: read_button_eq)
qed

lemma loop_front_time:
  assumes "loop_front cfg e s = Inr s'"
  shows "lastButtonPressTime s' =
           (if accepted e s then button_millis e else lastButtonPressTime s)"
proof -
  from assms obtain s1 s2 where
    s1: "read_encoder cfg e s = Inr s1" and
    s2: "refresh_menu cfg (read_button e s1) = Inr s2" and
    s3: "updateOLED cfg s2 = Inr s'"
    by (auto simp: loop_front_def split: sum.splits)
  have a: "accepted e s1 = accepted e s"
    using read_encoder_fields(2) [OF s1] by (simp add: accepted_def)
  have "lastButtonPressTime s' = lastButtonPressTime s2"
    using updateOLED_shape [OF s3] by auto
  also have "\<dots> = lastButtonPressTime (read_button e s1)"
    using refresh_menu_fields(7) [OF s2] .
  also have "\<dots> = (if accepted e s then button_millis e else lastButtonPressTime s)"
    using read_encoder_fields(2) [OF s1] a by (simp add: read_button_eq)
  finally show ?thesis .
qed

lemma loop_front_outline:
  assumes "loop_front cfg e s = Inr s'"
  shows "same_outline s' (step_outline e s)"
  using loop_front_state [OF assms] loop_front_time [OF assms] loop_front_encoder [OF assms]
  by (simp add: same_outline_def step_outline_def)

lemma same_outline_trans:
  "same_outline s t \<Longrightarrow> same_outline t u \<Longrightarrow> same_outline s u"
  by (simp add: same_outline_def)

lemma accepted_cong: "same_outline s t \<Longrightarrow> accepted e s = accepted e t"
  by (simp add: same_outline_def accepted_def)

lemma drained_cong:
  assumes "same_outline s t"
  shows "drained e s = drained e t"
  using assms interrupts_enc_cong [of s t "isr_before_drain e"]
  by (simp add: same_outline_def drained_def)

lemma after_drain_cong:
  assumes "same_outline s t"
  shows "encoderPos (after_drain e s) = encoderPos (after_drain e t) \<and>
         lastEncoded (after_drain e s) = lastEncoded (after_drain e t)"
proof -
  let ?a = "(interrupts (isr_before_drain e) s)\<lparr>encoderPos := 0\<rparr>"
  let ?b = "(interrupts (isr_before_drain e) t)\<lparr>encoderPos := 0\<rparr>"
  have "lastEncoded ?a = lastEncoded ?b"
    using assms interrupts_enc_cong [of s t "isr_before_drain e"]
    by (simp add: same_outline_def)
  moreover have "encoderPos ?a = encoderPos ?b" by simp
  ultimately show ?thesis
    using interrupts_enc_cong [of ?a ?b "isr_after_drain e"]
    by (simp add: after_drain_def)
qed

lemma step_outline_cong:
  assumes "same_outline s t"
  shows "same_outline (step_outline e s) (step_outline e t)"
  using assms accepted_cong [OF assms, of e] after_drain_cong [OF assms, of e]
  by (simp add: same_outline_def step_outline_def)

lemma gentle_cong: "same_outline s t \<Longrightarrow> gentle cfg e s = gentle cfg e t"
  using drained_cong [of s t e] by (simp add: gentle_def same_outline_def)

lemma outline_cong:
  "same_outline s t \<Longrightarrow> same_outline (outline es s) (outline es t)"
  by (induction es arbitrary: s t) (simp_all add: step_outline_cong)

lemma presses_cong: "same_outline s t \<Longrightarrow> presses es s = presses es t"
proof (induction es arbitrary: s t)
  case Nil
  show ?case by simp
next
  case (Cons e es)
  from Cons.IH [OF step_outline_cong [OF Cons.prems, of e]] accepted_cong [OF Cons.prems, of e]
  show ?case by simp
qed

lemma gentle_all_cong: "same_outline s t \<Longrightarrow> gentle_all cfg es s = gentle_all cfg es t"
proof (induction es arbitrary: s t)
  case Nil
  show ?case by simp
next
  case (Cons e es)
  from Cons.IH [OF step_outline_cong [OF Cons.prems, of e]] gentle_cong [OF Cons.prems, of cfg e]
  show ?case by simp
qed

lemma gentle_all_append:
  "gentle_all cfg (es @ [e]) s \<longleftrightarrow> gentle_all cfg es s \<and> gentle cfg e (outline es s)"
  by (induction es arbitrary: s) auto

lemma rank_selecting: "rank st \<le> 2 \<longleftrightarrow> selecting st"
  by (cases st) (simp_all add: selecting_def)

lemma rank_advance: "rank st \<le> 2 \<Longrightarrow> rank (advance st) = rank st + 1"
  by (cases st) (simp_all add: advance_def)

lemma rank_step_outline:
  assumes "rank (currentState s) \<le> 2"
  shows "rank (currentState (step_outline e s)) =
           rank (currentState s) + (if accepted e s then 1 else 0)"
  using rank_advance [OF assms] by (simp add: step_outline_def)

lemma loop_without_submission:
  assumes "loop cfg e s = Inr s'"
    and "rank (currentState s) + (if accepted e s then 1 else 0) \<le> 2"
  shows "loop_front cfg e s = Inr s'"
proof -
  from assms(1) obtain f where
    f: "loop_front cfg e s = Inr f" and b: "submission cfg e f = Inr s'"
    by (auto simp: loop_def split: sum.splits)
  have "rank (currentState s) \<le> 2" using assms(2) by simp
  from rank_step_outline [OF this, of e] loop_front_outline [OF f] assms(2)
  have "rank (currentState f) \<le> 2" by (simp add: same_outline_def)
  then have "currentState f \<noteq> STATE_SUBMISSION" by auto
  with b have "s' = f" by (simp add: submission_def)
  with f show ?thesis by simp
qed

lemma run_outline:
  assumes "rank (currentState s) + presses es s \<le> 2" and "run cfg es s = Inr s'"
  shows "same_outline s' (outline es s) \<and>
         rank (currentState s') = rank (currentState s) + presses es s"
  using assms
proof (induction es arbitrary: s)
  case Nil
  then show ?case by (simp add: same_outline_def)
next
  case (Cons e es)
  from Cons.prems(2) obtain s1 where
    l: "loop cfg e s = Inr s1" and r: "run cfg es s1 = Inr s'"
    by (auto split: sum.splits)
  have small: "rank (currentState s) + (if accepted e s then 1 else 0) \<le> 2"
    using Cons.prems(1) by (simp split: if_splits)
  then have rs: "rank (currentState s) \<le> 2" by simp
  have o: "same_outline s1 (step_outline e s)"
    using loop_front_outline [OF loop_without_submission [OF l small]] .
  have r1: "rank (currentState s1) = rank (currentState s) + (if accepted e s then 1 else 0)"
    using o rank_step_outline [OF rs, of e] by (simp add: same_outline_def)
  have p: "presses es s1 = presses es (step_outline e s)"
    using presses_cong [OF o] .
  have "rank (currentState s1) + presses es s1 \<le> 2"
    using Cons.prems(1) r1 p by (simp split: if_splits)
  from Cons.IH [OF this r] have
    a: "same_outline s' (outline es s1)" and
    b: "rank (currentState s') = rank (currentState s1) + presses es s1"
    by simp_all
  have "same_outline s' (outline es (step_outline e s))"
    using same_outline_trans [OF a outline_cong [OF o]] .
  then show ?case using b r1 p by (simp split: if_splits)
qed

lemma run_returns:
  assumes "wf_config cfg" and "idx_ok cfg s" and "gentle_all cfg es s"
    and "rank (currentState s) + presses es s \<le> 2"
  shows "\<exists>s'. run cfg es s = Inr s' \<and> idx_ok cfg s'"
  using assms(2,3,4)
proof (induction es arbitrary: s)
  case Nil
  then show ?case by simp
next
  case (Cons e es)
  have small: "rank (currentState s) + (if accepted e s then 1 else 0) \<le> 2"
    using Cons.prems(3) by (simp split: if_splits)
  then have rs: "rank (currentState s) \<le> 2" by simp
  then have sel: "selecting (currentState s)" by (simp add: rank_selecting)
  have g: "gentle cfg e s" using Cons.prems(2) by simp
  from loop_front_returns [OF assms(1) Cons.prems(1) sel g]
  obtain f where f: "loop_front cfg e s = Inr f" and okf: "idx_ok cfg f" by blast
  have o: "same_outline f (step_outline e s)"
    using loop_front_outline [OF f] .
  have rf: "rank (currentState f) = rank (currentState s) + (if accepted e s then 1 else 0)"
    using o rank_step_outline [OF rs, of e] by (simp add: same_outline_def)
  then have "currentState f \<noteq> STATE_SUBMISSION" using small by auto
  then have l: "loop cfg e s = Inr f"
    using f by (simp add: loop_def submission_def)
  have gf: "gentle_all cfg es f"
    using gentle_all_cong [OF o] Cons.prems(2) by simp
  have "rank (currentState f) + presses es f \<le> 2"
    using Cons.prems(3) rf presses_cong [OF o, of es] by (simp split: if_splits)
  from Cons.IH [OF okf gf this] l show ?case by simp
qed

lemma dwell_trace:
  assumes "confirmation_dwell cfg start reads s = Inr s'"
  shows "\<exists>rest. trace s' = trace s @ rest \<and> list_all is_oled rest"
  using assms
proof (induction reads arbitrary: s)
  case Nil
  then show ?case by simp
next
  case (Cons r reads)
  obtain irqs now where r: "r = (irqs, now)" by (cases r)
  show ?case
  proof (cases "now - start < 3000")
    case True
    with Cons.prems r obtain s1 where
      s1: "updateOLED cfg (interrupts irqs s) = Inr s1" and
      rest: "confirmation_dwell cfg start reads s1 = Inr s'"
      by (auto split: sum.splits)
    from updateOLED_shape [OF s1] obtain x where
      x: "s1 = emit x (interrupts irqs s)" "is_oled x" by blast
    from Cons.IH [OF rest] obtain rest' where
      "trace s' = trace s1 @ rest'" "list_all is_oled rest'" by blast
    then have "trace s' = trace s @ (x # rest')" "list_all is_oled (x # rest')"
      using x by simp_all
    then show ?thesis by blast
  next
    case False
    with Cons.prems r have "trace s' = trace s @ [] \<and> list_all is_oled []" by auto
    then show ?thesis by blast
  qed
qed

lemma third_press_submits:
  assumes st: "currentState s = STATE_MOOD_SELECTION" and acc: "accepted e s"
    and l: "loop cfg e s = Inr s'"
  shows "\<exists>s3 s4 s5 m rest.
           loop_front cfg e s = Inr s3 \<and> currentState s3 = STATE_SUBMISSION \<and>
           build_message cfg (dateStr e) s3 = Inr m \<and>
           send_submission cfg e s3 = Inr s4 \<and> currentState s4 = STATE_CONFIRMATION \<and>
           trace s4 = trace s3 @ [Telegram m, Lcd [''Submitted!'', ''Thank you!'']] \<and>
           confirmation_dwell cfg (confirmStart e) (dwell_reads e) s4 = Inr s5 \<and>
           currentState s5 = STATE_CONFIRMATION \<and>
           s' = reset_selection s5 \<and>
           trace s' = trace s4 @ rest \<and> list_all is_oled rest"
proof -
  from l obtain s3 where
    f: "loop_front cfg e s = Inr s3" and b: "submission cfg e s3 = Inr s'"
    by (auto simp: loop_def split: sum.splits)
  have st3: "currentState s3 = STATE_SUBMISSION"
    using loop_front_state [OF f] st acc by (simp add: advance_def)
  with b obtain s4 s5 where
    s4: "send_submission cfg e s3 = Inr s4" and
    s5: "confirmation_dwell cfg (confirmStart e) (dwell_reads e) s4 = Inr s5" and
    s': "s' = reset_selection s5"
    by (auto simp: submission_def split: sum.splits)
  from send_submission_shape [OF s4] obtain m where
    m: "build_message cfg (dateStr e) s3 = Inr m" and
    e4: "s4 = emit (Lcd [''Submitted!'', ''Thank you!''])
                ((emit (Telegram m) s3)\<lparr>currentState := STATE_CONFIRMATION\<rparr>)"
    by blast
  have c4: "currentState s4 = STATE_CONFIRMATION"
    and t4: "trace s4 = trace s3 @ [Telegram m, Lcd [''Submitted!'', ''Thank you!'']]"
    using e4 by simp_all
  have c5: "currentState s5 = STATE_CONFIRMATION"
    using dwell_fields [OF s5] c4 by simp
  from dwell_trace [OF s5] obtain rest where
    rest: "trace s5 = trace s4 @ rest" "list_all is_oled rest" by blast
  have "trace s' = trace s4 @ rest"
    using s' rest(1) by (simp add: reset_selection_def)
  with f st3 m s4 c4 t4 s5 c5 s' rest(2) show ?thesis by blast
qed

lemma third_press_returns:
  assumes wf: "wf_config cfg" and ok: "idx_ok cfg s"
    and st: "currentState s = STATE_MOOD_SELECTION" and acc: "accepted e s"
    and g: "gentle cfg e s"
    and mm: "length (moods cfg) \<le> length (moodMessages cfg)"
    and dl: "\<exists>r \<in> set (dwell_reads e). 3000 \<le> unat (snd r - confirmStart e)"
  shows "\<exists>s'. loop cfg e s = Inr s'"
proof -
  have sel: "selecting (currentState s)" using st by (simp add: selecting_def)
  from loop_front_returns [OF wf ok sel g] acc st
  obtain s3 where f: "loop_front cfg e s = Inr s3" and ok3: "idx_ok cfg s3"
    and st3: "currentState s3 = STATE_SUBMISSION"
    by (auto simp: advance_def)
  have "in_range (moodMessages cfg) (selectedMoodIndex s3)"
    using ok3 mm by (simp add: idx_ok_def in_range_def)
  with ok3 have "\<exists>s'. submission cfg e s3 = Inr s'"
    using submission_returns [OF st3 _ _ _ _ dl, of cfg] by (simp add: idx_ok_def)
  then show ?thesis using f by (simp add: loop_def)
qed

text \<open>
  Claim C5. Start in the name selection and let any iterations follow in which at most
  two presses are accepted: the phase is then the name, class or mood selection according
  to whether none, one or two presses were accepted, so two accepted presses do not reach
  the submission. When two have been accepted and the next iteration accepts the third,
  that iteration of \<^verbatim>\<open>loop()\<close> sets the phase to the submission, builds the message and
  hands it to \<^verbatim>\<open>sendTelegramMessage\<close>, sets the phase to the confirmation with
  ``Submitted!'' on the LCD, runs the confirmation loop (which only draws on the OLED)
  and resets. These iterations do return when the indices start inside their lists, each
  drained rotation is gentle, there is a message for every mood and the clock of the
  confirmation loop reaches 3000 ms.
\<close>

theorem three_presses_reach_submission:
  assumes start: "currentState s0 = STATE_NAME_SELECTION"
  shows "(presses es s0 \<le> 2 \<and> run cfg es s0 = Inr s \<longrightarrow>
            currentState s =
              [STATE_NAME_SELECTION, STATE_CLASS_SELECTION, STATE_MOOD_SELECTION]
                ! presses es s0)
       \<and> (presses es s0 = 2 \<and> accepted e (outline es s0) \<and>
          run cfg es s0 = Inr s \<and> loop cfg e s = Inr s' \<longrightarrow>
            (\<exists>s3 s4 s5 m rest.
               loop_front cfg e s = Inr s3 \<and> currentState s3 = STATE_SUBMISSION \<and>
               build_message cfg (dateStr e) s3 = Inr m \<and>
               send_submission cfg e s3 = Inr s4 \<and> currentState s4 = STATE_CONFIRMATION \<and>
               trace s4 = trace s3 @ [Telegram m, Lcd [''Submitted!'', ''Thank you!'']] \<and>
               confirmation_dwell cfg (confirmStart e) (dwell_reads e) s4 = Inr s5 \<and>
               currentState s5 = STATE_CONFIRMATION \<and>
               s' = reset_selection s5 \<and>
               trace s' = trace s4 @ rest \<and> list_all is_oled rest))
       \<and> (presses es s0 = 2 \<and> accepted e (outline es s0) \<and>
          wf_config cfg \<and> idx_ok cfg s0 \<and> gentle_all cfg (es @ [e]) s0 \<and>
          length (moods cfg) \<le> length (moodMessages cfg) \<and>
          (\<exists>r \<in> set (dwell_reads e). 3000 \<le> unat (snd r - confirmStart e)) \<longrightarrow>
            (\<exists>t t'. run cfg es s0 = Inr t \<and> loop cfg e t = Inr t'))"
proof (intro conjI)
  show "presses es s0 \<le> 2 \<and> run cfg es s0 = Inr s \<longrightarrow>
            currentState s =
              [STATE_NAME_SELECTION, STATE_CLASS_SELECTION, STATE_MOOD_SELECTION]
                ! presses es s0"
  proof (rule impI)
    assume a: "presses es s0 \<le> 2 \<and> run cfg es s0 = Inr s"
    then have "rank (currentState s0) + presses es s0 \<le> 2" using start by simp
    from run_outline [OF this, of cfg s] a start
    have r: "rank (currentState s) = presses es s0" by simp
    have "presses es s0 = 0 \<or> presses es s0 = 1 \<or> presses es s0 = 2"
      using a by linarith
    with r show "currentState s =
              [STATE_NAME_SELECTION, STATE_CLASS_SELECTION, STATE_MOOD_SELECTION]
                ! presses es s0"
      by (cases "currentState s") auto
  qed
next
  show "presses es s0 = 2 \<and> accepted e (outline es s0) \<and>
          run cfg es s0 = Inr s \<and> loop cfg e s = Inr s' \<longrightarrow>
            (\<exists>s3 s4 s5 m rest.
               loop_front cfg e s = Inr s3 \<and> currentState s3 = STATE_SUBMISSION \<and>
               build_message cfg (dateStr e) s3 = Inr m \<and>
               send_submission cfg e s3 = Inr s4 \<and> currentState s4 = STATE_CONFIRMATION \<and>
               trace s4 = trace s3 @ [Telegram m, Lcd [''Submitted!'', ''Thank you!'']] \<and>
               confirmation_dwell cfg (confirmStart e) (dwell_reads e) s4 = Inr s5 \<and>
               currentState s5 = STATE_CONFIRMATION \<and>
               s' = reset_selection s5 \<and>
               trace s' = trace s4 @ rest \<and> list_all is_oled rest)"
  proof (rule impI)
    assume a: "presses es s0 = 2 \<and> accepted e (outline es s0) \<and>
          run cfg es s0 = Inr s \<and> loop cfg e s = Inr s'"
    then have "rank (currentState s0) + presses es s0 \<le> 2" using start by simp
    from run_outline [OF this, of cfg s] a start
    have o: "same_outline s (outline es s0)" and r: "rank (currentState s) = 2" by simp_all
    have st: "currentState s = STATE_MOOD_SELECTION"
      using r by (cases "currentState s") simp_all
    have acc: "accepted e s" using a accepted_cong [OF o] by simp
    from a have l: "loop cfg e s = Inr s'" by simp
    show "\<exists>s3 s4 s5 m rest.
               loop_front cfg e s = Inr s3 \<and> currentState s3 = STATE_SUBMISSION \<and>
               build_message cfg (dateStr e) s3 = Inr m \<and>
               send_submission cfg e s3 = Inr s4 \<and> currentState s4 = STATE_CONFIRMATION \<and>
               trace s4 = trace s3 @ [Telegram m, Lcd [''Submitted!'', ''Thank you!'']] \<and>
               confirmation_dwell cfg (confirmStart e) (dwell_reads e) s4 = Inr s5 \<and>
               currentState s5 = STATE_CONFIRMATION \<and>
               s' = reset_selection s5 \<and>
               trace s' = trace s4 @ rest \<and> list_all is_oled rest"
      by (rule third_press_submits [OF st acc l])
  qed
next
  show "presses es s0 = 2 \<and> accepted e (outline es s0) \<and>
          wf_config cfg \<and> idx_ok cfg s0 \<and> gentle_all cfg (es @ [e]) s0 \<and>
          length (moods cfg) \<le> length (moodMessages cfg) \<and>
          (\<exists>r \<in> set (dwell_reads e). 3000 \<le> unat (snd r - confirmStart e)) \<longrightarrow>
            (\<exists>t t'. run cfg es s0 = Inr t \<and> loop cfg e t = Inr t')"
  proof (rule impI)
    assume a: "presses es s0 = 2 \<and> accepted e (outline es s0) \<and>
          wf_config cfg \<and> idx_ok cfg s0 \<and> gentle_all cfg (es @ [e]) s0 \<and>
          length (moods cfg) \<le> length (moodMessages cfg) \<and>
          (\<exists>r \<in> set (dwell_reads e). 3000 \<le> unat (snd r - confirmStart e))"
    then have wf: "wf_config cfg" and ok: "idx_ok cfg s0"
      and ga: "gentle_all cfg es s0" and ge: "gentle cfg e (outline es s0)"
      by (simp_all add: gentle_all_append)
    have small: "rank (currentState s0) + presses es s0 \<le> 2" using a start by simp
    from run_returns [OF wf ok ga small] obtain t where
      t: "run cfg es s0 = Inr t" and okt: "idx_ok cfg t" by blast
    from run_outline [OF small t] a start
    have o: "same_outline t (outline es s0)" and r: "rank (currentState t) = 2" by simp_all
    have st: "currentState t = STATE_MOOD_SELECTION"
      using r by (cases "currentState t") simp_all
    have acc: "accepted e t" using a accepted_cong [OF o] by simp
    have g: "gentle cfg e t" using ge gentle_cong [OF o] by simp
    from a have mm: "length (moods cfg) \<le> length (moodMessages cfg)"
      and dl: "\<exists>r \<in> set (dwell_reads e). 3000 \<le> unat (snd r - confirmStart e)"
      by simp_all
    from third_press_returns [OF wf okt st acc g mm dl] t
    show "\<exists>t t'. run cfg es s0 = Inr t \<and> loop cfg e t = Inr t'" by blast
  qed
qed

text \<open>
  Press at 1000 ms, release, press at 2000 ms after one forward step of the knob (the
  class becomes ``Class 4''), release, press at 3000 ms.
\<close>

theorem three_presses_reach_submission_witness:
  "currentState after_boot = STATE_NAME_SELECTION
   \<and> presses [press_tick 1000, release_tick,
               (press_tick 2000)\<lparr>isr_before_drain := [(True, False)]\<rparr>, release_tick]
        after_boot = 2
   \<and> accepted submit_tick
        (outline [press_tick 1000, release_tick,
                  (press_tick 2000)\<lparr>isr_before_drain := [(True, False)]\<rparr>, release_tick]
           after_boot)
   \<and> wf_config menu_data \<and> idx_ok menu_data after_boot
   \<and> gentle_all menu_data
        ([press_tick 1000, release_tick,
          (press_tick 2000)\<lparr>isr_before_drain := [(True, False)]\<rparr>, release_tick]
         @ [submit_tick]) after_boot
   \<and> length (moods menu_data) \<le> length (moodMessages menu_data)
   \<and> list_ex (\<lambda>r. 3000 \<le> unat (snd r - confirmStart submit_tick)) (dwell_reads submit_tick)
   \<and> (\<exists>t t' s3 s4 m.
         run menu_data
           [press_tick 1000, release_tick,
            (press_tick 2000)\<lparr>isr_before_drain := [(True, False)]\<rparr>, release_tick]
           after_boot = Inr t \<and>
         currentState t = STATE_MOOD_SELECTION \<and>
         loop menu_data submit_tick t = Inr t' \<and>
         loop_front menu_data submit_tick t = Inr s3 \<and> currentState s3 = STATE_SUBMISSION \<and>
         send_submission menu_data submit_tick s3 = Inr s4 \<and>
         currentState s4 = STATE_CONFIRMATION \<and>
         trace s4 = trace s3 @ [Telegram m, Lcd [''Submitted!'', ''Thank you!'']] \<and>
         currentState t' = STATE_NAME_SELECTION)"
proof -
  let ?es = "[press_tick 1000, release_tick,
              (press_tick 2000)\<lparr>isr_before_drain := [(True, False)]\<rparr>, release_tick]"
  note outline_defs = step_outline_def after_drain_def accepted_def gentle_def drained_def
    menu_length_def release_tick_def after_boot_def
  have start: "currentState after_boot = STATE_NAME_SELECTION"
    by (simp add: after_boot_def globals_def)
  have p: "presses ?es after_boot = 2"
    by (simp add: outline_defs eval_defs)
  have acc: "accepted submit_tick (outline ?es after_boot)"
    by (simp add: outline_defs eval_defs)
  have wf: "wf_config menu_data"
    by (simp add: wf_config_def wf_list_def menu_data_def)
  have ok: "idx_ok menu_data after_boot"
    by (simp add: idx_ok_def in_range_def after_boot_def globals_def menu_data_def)
  have g: "gentle_all menu_data (?es @ [submit_tick]) after_boot"
    by (simp add: outline_defs eval_defs)
  have mm: "length (moods menu_data) \<le> length (moodMessages menu_data)"
    by (simp add: menu_data_def)
  have dl: "list_ex (\<lambda>r. 3000 \<le> unat (snd r - confirmStart submit_tick))
              (dwell_reads submit_tick)"
    by (simp add: submit_tick_def)
  then have dl': "\<exists>r \<in> set (dwell_reads submit_tick).
                    3000 \<le> unat (snd r - confirmStart submit_tick)"
    by (simp add: list_ex_iff)
  note inst = three_presses_reach_submission [OF start, of ?es menu_data _ submit_tick]
  from inst p acc wf ok g mm dl' obtain t t' where
    t: "run menu_data ?es after_boot = Inr t" and t': "loop menu_data submit_tick t = Inr t'"
    by blast
  from inst [of t t'] p t have st: "currentState t = STATE_MOOD_SELECTION"
    by simp
  from inst [of t t'] p acc t t' obtain s3 s4 s5 m where
    "loop_front menu_data submit_tick t = Inr s3" "currentState s3 = STATE_SUBMISSION"
    "send_submission menu_data submit_tick s3 = Inr s4"
    "currentState s4 = STATE_CONFIRMATION"
    "trace s4 = trace s3 @ [Telegram m, Lcd [''Submitted!'', ''Thank you!'']]"
    "t' = reset_selection s5"
    by blast
  moreover from this have "currentState t' = STATE_NAME_SELECTION"
    by (simp add: reset_selection_def)
  ultimately show ?thesis
    using start p acc wf ok g mm dl t t' st by blast
qed

section \<open>Samples that arrive after the drain\<close>

lemma forget_eqD:
  assumes "forget_encoder s = forget_encoder t"
  shows "t = s\<lparr>encoderPos := encoderPos t, lastEncoded := lastEncoded t\<rparr>"
  using assms by (cases s, cases t) (simp add: forget_encoder_def)

lemma forget_set [simp]:
  "forget_encoder (s\<lparr>encoderPos := p, lastEncoded := l\<rparr>) = forget_encoder s"
  "forget_encoder (s\<lparr>encoderPos := p\<rparr>) = forget_encoder s"
  by (simp_all add: forget_encoder_def)

lemma forget_interrupts [simp]: "forget_encoder (interrupts xs s) = forget_encoder s"
  by (subst interrupts_frame) simp

lemma apart_set:
  "apart_from_encoder (map_sum id (\<lambda>s'. s'\<lparr>encoderPos := p, lastEncoded := l\<rparr>) r) =
   apart_from_encoder r"
  by (cases r) (simp_all add: apart_from_encoder_def)

lemma rotate_enc:
  "rotate cfg pos (s\<lparr>encoderPos := p, lastEncoded := l\<rparr>) =
   map_sum id (\<lambda>s'. s'\<lparr>encoderPos := p, lastEncoded := l\<rparr>) (rotate cfg pos s)"
  by (auto simp: rotate_def split: DeviceState.splits sum.splits)

lemma read_button_enc:
  "read_button e (s\<lparr>encoderPos := p, lastEncoded := l\<rparr>) =
   (read_button e s)\<lparr>encoderPos := p, lastEncoded := l\<rparr>"
  by (simp add: read_button_def isButtonPressed_def emit_def)

lemma displayMenu_enc:
  "displayMenu cfg (s\<lparr>encoderPos := p, lastEncoded := l\<rparr>) =
   map_sum id (\<lambda>s'. s'\<lparr>encoderPos := p, lastEncoded := l\<rparr>) (displayMenu cfg s)"
  by (auto simp: displayMenu_def emit_def split: DeviceState.splits sum.splits)

lemma refresh_menu_enc:
  "refresh_menu cfg (s\<lparr>encoderPos := p, lastEncoded := l\<rparr>) =
   map_sum id (\<lambda>s'. s'\<lparr>encoderPos := p, lastEncoded := l\<rparr>) (refresh_menu cfg s)"
  by (auto simp: refresh_menu_def displayMenu_enc menu_changed_def remember_def
      split: sum.splits)

lemma updateOLED_enc:
  "updateOLED cfg (s\<lparr>encoderPos := p, lastEncoded := l\<rparr>) =
   map_sum id (\<lambda>s'. s'\<lparr>encoderPos := p, lastEncoded := l\<rparr>) (updateOLED cfg s)"
  by (auto simp: updateOLED_def emit_def split: DeviceState.splits sum.splits)

lemma send_submission_enc:
  "send_submission cfg e (s\<lparr>encoderPos := p, lastEncoded := l\<rparr>) =
   map_sum id (\<lambda>s'. s'\<lparr>encoderPos := p, lastEncoded := l\<rparr>) (send_submission cfg e s)"
  by (auto simp: send_submission_def build_message_def displayMenu_def emit_def
      split: sum.splits)

lemma forget_state:
  assumes "forget_encoder s = forget_encoder t"
  shows "currentState t = currentState s"
  using arg_cong [OF assms, of currentState] by (simp add: forget_encoder_def)

lemma forget_reset:
  "forget_encoder (reset_selection s) = reset_selection (forget_encoder s)"
  by (simp add: forget_encoder_def reset_selection_def)

lemma sim_stage:
  assumes comm: "\<And>s p l. f (s\<lparr>encoderPos := p, lastEncoded := l\<rparr>) =
                   map_sum id (\<lambda>s'. s'\<lparr>encoderPos := p, lastEncoded := l\<rparr>) (f s)"
    and sim: "forget_encoder s = forget_encoder t"
  shows "apart_from_encoder (f s) = apart_from_encoder (f t)"
proof -
  have "f t = f (s\<lparr>encoderPos := encoderPos t, lastEncoded := lastEncoded t\<rparr>)"
    using forget_eqD [OF sim] by simp
  also have "\<dots> = map_sum id (\<lambda>s'. s'\<lparr>encoderPos := encoderPos t,
                                       lastEncoded := lastEncoded t\<rparr>) (f s)"
    by (rule comm)
  finally show ?thesis by (simp add: apart_set)
qed

lemma apart_cases:
  assumes "apart_from_encoder r = apart_from_encoder r'"
  shows "(\<exists>err. r = Inl err \<and> r' = Inl err) \<or>
         (\<exists>s t. r = Inr s \<and> r' = Inr t \<and> forget_encoder s = forget_encoder t)"
  using assms by (cases r; cases r') (simp_all add: apart_from_encoder_def)

lemma sim_bind:
  assumes "apart_from_encoder r = apart_from_encoder r'"
    and "\<And>s t. forget_encoder s = forget_encoder t \<Longrightarrow>
           apart_from_encoder (f s) = apart_from_encoder (g t)"
  shows "apart_from_encoder (case r of Inl err \<Rightarrow> Inl err | Inr s \<Rightarrow> f s) =
         apart_from_encoder (case r' of Inl err \<Rightarrow> Inl err | Inr t \<Rightarrow> g t)"
  using apart_cases [OF assms(1)] assms(2)
  by (auto simp: apart_from_encoder_def)

lemma dwell_sim:
  assumes "forget_encoder s = forget_encoder t"
  shows "apart_from_encoder (confirmation_dwell cfg start reads s) =
         apart_from_encoder
           (confirmation_dwell cfg start (map (\<lambda>r. ([], snd r)) reads) t)"
  using assms
proof (induction reads arbitrary: s t)
  case Nil
  show ?case by simp
next
  case (Cons r reads)
  obtain irqs now where r: "r = (irqs, now)" by (cases r)
  have i: "forget_encoder (interrupts irqs s) = forget_encoder t"
    using Cons.prems by simp
  show ?case
  proof (cases "now - start < 3000")
    case True
    have u: "apart_from_encoder (updateOLED cfg (interrupts irqs s)) =
             apart_from_encoder (updateOLED cfg t)"
      using sim_stage [of "updateOLED cfg", OF updateOLED_enc i] .
    have "apart_from_encoder
            (case updateOLED cfg (interrupts irqs s) of
               Inl err \<Rightarrow> Inl err
             | Inr s1 \<Rightarrow> confirmation_dwell cfg start reads s1) =
          apart_from_encoder
            (case updateOLED cfg t of
               Inl err \<Rightarrow> Inl err
             | Inr t1 \<Rightarrow> confirmation_dwell cfg start (map (\<lambda>r. ([], snd r)) reads) t1)"
      using sim_bind [OF u] Cons.IH by blast
    then show ?thesis using True r by simp
  next
    case False
    then show ?thesis using r i by (simp add: apart_from_encoder_def)
  qed
qed

lemma submission_sim:
  assumes "forget_encoder s = forget_encoder t"
  shows "apart_from_encoder (submission cfg e s) =
         apart_from_encoder (submission cfg (without_late_samples e) t)"
proof -
  have c: "currentState t = currentState s"
    using forget_state [OF assms] .
  show ?thesis
  proof (cases "currentState s = STATE_SUBMISSION")
    case False
    then show ?thesis using c assms by (simp add: submission_def apart_from_encoder_def)
  next
    case True
    have d: "dateStr (without_late_samples e) = dateStr e"
      "confirmStart (without_late_samples e) = confirmStart e"
      "dwell_reads (without_late_samples e) = map (\<lambda>r. ([], snd r)) (dwell_reads e)"
      by (simp_all add: without_late_samples_def)
    have s1: "apart_from_encoder (send_submission cfg e s) =
              apart_from_encoder (send_submission cfg (without_late_samples e) t)"
      using sim_stage [of "send_submission cfg e", OF send_submission_enc assms]
      by (simp add: send_submission_def d)
    have "apart_from_encoder
            (case send_submission cfg e s of
               Inl err \<Rightarrow> Inl err
             | Inr s1 \<Rightarrow>
                 (case confirmation_dwell cfg (confirmStart e) (dwell_reads e) s1 of
                    Inl err \<Rightarrow> Inl err
                  | Inr s2 \<Rightarrow> Inr (reset_selection s2))) =
          apart_from_encoder
            (case send_submission cfg (without_late_samples e) t of
               Inl err \<Rightarrow> Inl err
             | Inr t1 \<Rightarrow>
                 (case confirmation_dwell cfg (confirmStart e)
                         (map (\<lambda>r. ([], snd r)) (dwell_reads e)) t1 of
                    Inl err \<Rightarrow> Inl err
                  | Inr t2 \<Rightarrow> Inr (reset_selection t2)))"
    proof (rule sim_bind [OF s1])
      fix s1 t1 :: device
      assume a: "forget_encoder s1 = forget_encoder t1"
      show "apart_from_encoder
              (case confirmation_dwell cfg (confirmStart e) (dwell_reads e) s1 of
                 Inl err \<Rightarrow> Inl err
               | Inr s2 \<Rightarrow> Inr (reset_selection s2)) =
            apart_from_encoder
              (case confirmation_dwell cfg (confirmStart e)
                      (map (\<lambda>r. ([], snd r)) (dwell_reads e)) t1 of
                 Inl err \<Rightarrow> Inl err
               | Inr t2 \<Rightarrow> Inr (reset_selection t2))"
      proof (rule sim_bind [OF dwell_sim [OF a]])
        fix s2 t2 :: device
        assume "forget_encoder s2 = forget_encoder t2"
        then have "forget_encoder (reset_selection s2) = forget_encoder (reset_selection t2)"
          by (simp add: forget_reset)
        then show "apart_from_encoder (Inr (reset_selection s2)) =
                   apart_from_encoder (Inr (reset_selection t2))"
          by (simp add: apart_from_encoder_def)
      qed
    qed
    then show ?thesis using True c by (simp add: submission_def d cong: sum.case_cong)
  qed
qed

lemma read_button_sim:
  assumes "forget_encoder s = forget_encoder t"
  shows "forget_encoder (read_button e s) =
         forget_encoder (read_button (without_late_samples e) t)"
proof -
  have "read_button (without_late_samples e) t = read_button e t"
    by (simp add: read_button_def without_late_samples_def)
  also have "\<dots> = read_button e (s\<lparr>encoderPos := encoderPos t, lastEncoded := lastEncoded t\<rparr>)"
    using forget_eqD [OF assms] by simp
  finally show ?thesis by (simp add: read_button_enc)
qed

lemma loop_front_sim:
  "apart_from_encoder (loop_front cfg e s) =
   apart_from_encoder (loop_front cfg (without_late_samples e) s)"
proof -
  let ?e0 = "without_late_samples e"
  let ?sb = "(interrupts (isr_before_drain e) s)\<lparr>encoderPos := 0\<rparr>"
  let ?pos = "encoderPos (interrupts (isr_before_drain e) s)"
  have r: "read_encoder cfg e s = rotate cfg ?pos (interrupts (isr_after_drain e) ?sb)"
    by (simp add: read_encoder_def Let_def)
  have r0: "read_encoder cfg ?e0 s = rotate cfg ?pos ?sb"
    by (simp add: read_encoder_def Let_def without_late_samples_def)
  have "forget_encoder (interrupts (isr_after_drain e) ?sb) = forget_encoder ?sb"
    by simp
  from sim_stage [of "rotate cfg ?pos", OF rotate_enc this]
  have a: "apart_from_encoder (read_encoder cfg e s) =
           apart_from_encoder (read_encoder cfg ?e0 s)"
    using r r0 by simp
  have "apart_from_encoder
          (case read_encoder cfg e s of
             Inl err \<Rightarrow> Inl err
           | Inr s1 \<Rightarrow>
               (case refresh_menu cfg (read_button e s1) of
                  Inl err \<Rightarrow> Inl err
                | Inr s2 \<Rightarrow> updateOLED cfg s2)) =
        apart_from_encoder
          (case read_encoder cfg ?e0 s of
             Inl err \<Rightarrow> Inl err
           | Inr t1 \<Rightarrow>
               (case refresh_menu cfg (read_button ?e0 t1) of
                  Inl err \<Rightarrow> Inl err
                | Inr t2 \<Rightarrow> updateOLED cfg t2))"
  proof (rule sim_bind [OF a])
    fix s1 t1 :: device
    assume "forget_encoder s1 = forget_encoder t1"
    then have b: "forget_encoder (read_button e s1) = forget_encoder (read_button ?e0 t1)"
      by (rule read_button_sim)
    have m: "apart_from_encoder (refresh_menu cfg (read_button e s1)) =
             apart_from_encoder (refresh_menu cfg (read_button ?e0 t1))"
      using sim_stage [of "refresh_menu cfg", OF refresh_menu_enc b] .
    show "apart_from_encoder
            (case refresh_menu cfg (read_button e s1) of
               Inl err \<Rightarrow> Inl err
             | Inr s2 \<Rightarrow> updateOLED cfg s2) =
          apart_from_encoder
            (case refresh_menu cfg (read_button ?e0 t1) of
               Inl err \<Rightarrow> Inl err
             | Inr t2 \<Rightarrow> updateOLED cfg t2)"
    proof (rule sim_bind [OF m])
      fix s2 t2 :: device
      assume "forget_encoder s2 = forget_encoder t2"
      then show "apart_from_encoder (updateOLED cfg s2) = apart_from_encoder (updateOLED cfg t2)"
        using sim_stage [of "updateOLED cfg", OF updateOLED_enc] by blast
    qed
  qed
  then show ?thesis by (simp add: loop_front_def)
qed

lemma loop_sim:
  "apart_from_encoder (loop cfg e s) = apart_from_encoder (loop cfg (without_late_samples e) s)"
proof -
  have "apart_from_encoder
          (case loop_front cfg e s of Inl err \<Rightarrow> Inl err | Inr s1 \<Rightarrow> submission cfg e s1) =
        apart_from_encoder
          (case loop_front cfg (without_late_samples e) s of
             Inl err \<Rightarrow> Inl err
           | Inr t1 \<Rightarrow> submission cfg (without_late_samples e) t1)"
    using sim_bind [OF loop_front_sim] submission_sim by blast
  then show ?thesis by (simp add: loop_def)
qed

lemma dwell_encoder:
  assumes "confirmation_dwell cfg start reads s = Inr s'"
  shows "encoderPos s' = encoderPos (interrupts (dwell_samples start reads) s) \<and>
         lastEncoded s' = lastEncoded (interrupts (dwell_samples start reads) s)"
  using assms
proof (induction reads arbitrary: s)
  case Nil
  then show ?case by simp
next
  case (Cons r reads)
  obtain irqs now where r: "r = (irqs, now)" by (cases r)
  show ?case
  proof (cases "now - start < 3000")
    case True
    with Cons.prems r obtain s1 where
      s1: "updateOLED cfg (interrupts irqs s) = Inr s1" and
      rest: "confirmation_dwell cfg start reads s1 = Inr s'"
      by (auto split: sum.splits)
    from updateOLED_shape [OF s1] have
      "encoderPos s1 = encoderPos (interrupts irqs s)"
      "lastEncoded s1 = lastEncoded (interrupts irqs s)"
      by auto
    from interrupts_enc_cong [OF this, of "dwell_samples start reads"] Cons.IH [OF rest]
    show ?thesis using True r by (simp add: interrupts_append)
  next
    case False
    with Cons.prems r show ?thesis by auto
  qed
qed

text \<open>
  What does hold of the samples that the interrupt routine takes after the drain of an
  iteration, so also of all those taken during Submitting and Confirming: they change
  nothing of what the iteration leaves behind apart from the counter and the stored pair,
  and an iteration that submits ends in the name selection with the three indices 0. The
  counter is not cleared on the way: when the iteration ends it holds what those samples
  added up to.
\<close>

lemma late_samples_reach_only_counter:
  "apart_from_encoder (loop cfg e s) = apart_from_encoder (loop cfg (without_late_samples e) s)
   \<and> (currentState s = STATE_MOOD_SELECTION \<and> accepted e s \<and> loop cfg e s = Inr s' \<longrightarrow>
        currentState s' = STATE_NAME_SELECTION \<and> selectedNameIndex s' = 0 \<and>
        selectedClassIndex s' = 0 \<and> selectedMoodIndex s' = 0 \<and>
        encoderPos s' =
          encoderPos
            (interrupts (isr_after_drain e @ dwell_samples (confirmStart e) (dwell_reads e))
               ((interrupts (isr_before_drain e) s)\<lparr>encoderPos := 0\<rparr>)))"
proof (rule conjI)
  show "apart_from_encoder (loop cfg e s) =
        apart_from_encoder (loop cfg (without_late_samples e) s)"
    by (rule loop_sim)
next
  show "currentState s = STATE_MOOD_SELECTION \<and> accepted e s \<and> loop cfg e s = Inr s' \<longrightarrow>
        currentState s' = STATE_NAME_SELECTION \<and> selectedNameIndex s' = 0 \<and>
        selectedClassIndex s' = 0 \<and> selectedMoodIndex s' = 0 \<and>
        encoderPos s' =
          encoderPos
            (interrupts (isr_after_drain e @ dwell_samples (confirmStart e) (dwell_reads e))
               ((interrupts (isr_before_drain e) s)\<lparr>encoderPos := 0\<rparr>))"
  proof (rule impI)
    assume a: "currentState s = STATE_MOOD_SELECTION \<and> accepted e s \<and> loop cfg e s = Inr s'"
    then obtain s1 where
      f: "loop_front cfg e s = Inr s1" and b: "submission cfg e s1 = Inr s'"
      by (auto simp: loop_def split: sum.splits)
    have st1: "currentState s1 = STATE_SUBMISSION"
      using loop_front_state [OF f] a by (simp add: advance_def)
    with b obtain sa sd where
      sa: "send_submission cfg e s1 = Inr sa" and
      sd: "confirmation_dwell cfg (confirmStart e) (dwell_reads e) sa = Inr sd" and
      s': "s' = reset_selection sd"
      by (auto simp: submission_def split: sum.splits)
    let ?dw = "dwell_samples (confirmStart e) (dwell_reads e)"
    have "encoderPos sa = encoderPos s1" "lastEncoded sa = lastEncoded s1"
      using send_submission_shape [OF sa] by auto
    then have "encoderPos sa = encoderPos (after_drain e s)"
      "lastEncoded sa = lastEncoded (after_drain e s)"
      using loop_front_encoder [OF f] by simp_all
    from interrupts_enc_cong [OF this, of ?dw] dwell_encoder [OF sd]
    have "encoderPos sd = encoderPos (interrupts ?dw (after_drain e s))"
      by simp
    then have "encoderPos s' =
            encoderPos
              (interrupts (isr_after_drain e @ ?dw)
                 ((interrupts (isr_before_drain e) s)\<lparr>encoderPos := 0\<rparr>))"
      using s' by (simp add: reset_selection_def after_drain_def interrupts_append)
    then show "currentState s' = STATE_NAME_SELECTION \<and> selectedNameIndex s' = 0 \<and>
          selectedClassIndex s' = 0 \<and> selectedMoodIndex s' = 0 \<and>
          encoderPos s' =
            encoderPos
              (interrupts (isr_after_drain e @ dwell_samples (confirmStart e) (dwell_reads e))
                 ((interrupts (isr_before_drain e) s)\<lparr>encoderPos := 0\<rparr>))"
      using s' by (simp add: reset_selection_def)
  qed
qed

text \<open>
  The button pin is read in front of the submission block only: the block does the same
  whatever the pin and the clock showed in \<^verbatim>\<open>isButtonPressed()\<close>.
\<close>

lemma submission_ignores_button:
  "submission cfg (e\<lparr>button_low := b, button_millis := m\<rparr>) s = submission cfg e s"
  by (simp add: submission_def send_submission_def cong: sum.case_cong)

text \<open>
  Claim C2. The claim has every rotation during Submitting and Confirming discarded, so
  that the device after the reset does not depend on it. In the sketch the reset leaves
  \<^verbatim>\<open>encoderPos\<close> alone. From the mood selection, a press starts the submission; one
  sample that the interrupt routine takes during the confirmation loop (pin A high, pin
  B low: a forward step) leaves the counter at 1 after the reset, where it is 0 without
  the sample, and the next iteration, with no input at all, moves the name from index 0
  to index 1, where it stays 0 without the sample.
\<close>

theorem rotation_during_confirmation_moves_name:
  "map_sum id currentState (loop menu_data submit_tick_turned mood_screen) =
     Inr STATE_NAME_SELECTION
   \<and> map_sum id encoderPos (loop menu_data submit_tick mood_screen) = Inr 0
   \<and> map_sum id encoderPos (loop menu_data submit_tick_turned mood_screen) = Inr 1
   \<and> map_sum id selectedNameIndex (run menu_data [submit_tick, idle_tick] mood_screen) = Inr 0
   \<and> map_sum id selectedNameIndex
        (run menu_data [submit_tick_turned, idle_tick] mood_screen) = Inr 1"
  by (simp add: eval_defs)

end
